theory Spec2Isabelle
  imports Main "HOL-Library.AList"
begin

section \<open>Python values\<close>

text \<open>
  Metadata values and decoded JSON are Python objects. Floating point numbers are kept
  abstract; \<open>PObject\<close> stands for any object that the default JSON encoder rejects
  (bytes, sets, datetimes, ...). A dict is an association list in insertion order:
  \<open>AList.update\<close> replaces the value of a key in place and appends a new key at the
  end, as assignment to a Python dict does.
\<close>

typedecl float64

datatype pyval =
    PNone
  | PBool bool
  | PInt int
  | PFloat float64
  | PStr string
  | PList "pyval list"
  | PDict "(string \<times> pyval) list"
  | PObject nat

type_synonym pydict = "(string \<times> pyval) list"

datatype error =
    ValueError_length_mismatch nat nat
  | ValueError_no_embeddings
  | ValueError_unexpected_format
  | ValueError_expected_got nat nat
  | ValueError_range_step_zero
  | RuntimeError_no_documents
  | RuntimeError_missing_dependency
  | RequestException
  | AttributeError
  | TypeError
  | LibraryError
  | OSError

text \<open>
  \<open>json.dump\<close> with the default encoder: every value must be None, a bool, a number,
  a string, a list or a dict of such values; anything else raises TypeError.
\<close>

fun json_serializable :: "pyval \<Rightarrow> bool" where
  "json_serializable (PObject _) = False"
| "json_serializable (PList xs) = (\<forall>x \<in> set xs. json_serializable x)"
| "json_serializable (PDict kvs) = (\<forall>v \<in> set (map snd kvs). json_serializable v)"
| "json_serializable _ = True"

text \<open>\<open>len(x)\<close>: defined on strings, lists and dicts, TypeError on the rest.\<close>

fun py_len :: "pyval \<Rightarrow> error + nat" where
  "py_len (PStr s) = Inr (length s)"
| "py_len (PList xs) = Inr (length xs)"
| "py_len (PDict kvs) = Inr (length kvs)"
| "py_len _ = Inl TypeError"

section \<open>Documents (document.py)\<close>

record Document =
  doc_text :: string
  metadata :: pydict

section \<open>The outside world\<close>

text \<open>
  What the pipeline leaves behind: the store directories under the base directory, by
  name, and the sequence of calls it made to external services and libraries. The base
  directory holds other entries too (\<open>setup_logging\<close> keeps \<open>application.log\<close> there);
  only their names matter, to the existence test of \<open>ensure_unique_path\<close>, and no run of
  the pipeline adds or removes one. What the log file contains is not modelled.
  A name stands for the path \<open>Path(base_path) / name\<close>. The two agree one to one for
  names that are a single path component, which is what the docstrings of
  \<open>VectorStoreBuilder\<close> and \<open>ensure_unique_path\<close> ask for (no directory separators).
\<close>

record faiss_index =
  dim :: nat
  id_vectors :: "(nat \<times> pyval) list"

datatype metadata_json = Incomplete | Dumped "pydict list"

record store_dir =
  index_faiss :: "faiss_index option"
  metadata_file :: "metadata_json option"

text \<open>
  The calls the log records, each when it is made and whatever its outcome:
  \<open>requests.post(endpoint, json=payload)\<close>, \<open>git.Repo.clone_from(url, clone_path)\<close>,
  \<open>client.get_all_pages_from_space(space=space_key, ...)\<close>, \<open>index.add_with_ids\<close> with the
  dimension and the number of vectors, \<open>store_dir.mkdir\<close>, \<open>faiss.write_index\<close> and
  \<open>metadata_file.open\<close>, the last three with the name of the store.
\<close>

datatype event =
    HttpPost string pydict
  | GitClone string
  | ConfluenceListPages string
  | FaissAddWithIds nat nat
  | Mkdir string
  | WriteIndex string
  | OpenMetadata string

record world =
  dirs :: "string \<rightharpoonup> store_dir"
  other_entries :: "string set"
  events :: "event list"
  draws :: nat
  posts :: nat

section \<open>Configuration (config.py)\<close>

record GitSettings =
  git_url :: string
  exclude_extensions :: "string list option"
  include_extensions :: "string list option"
  max_files :: "int option"
  branch :: "string option"

record ConfluenceSettings =
  confluence_url :: string
  user :: string
  token :: string
  space_key :: string
  max_pages :: "int option"

record EmbeddingConfig =
  endpoint :: string
  batch_size :: int
  model_kwargs :: pydict

record AppConfig =
  vector_store_path :: string
  vector_store_name :: string
  session_id :: "string option"
  files_location :: "string option"
  git_settings :: "GitSettings option"
  confluence_settings :: "ConfluenceSettings option"
  embedding_config :: EmbeddingConfig

datatype parser = TextParser | CSVParser | ExcelParser | PDFParser | WordParser | ImageParser

text \<open>
  What the pipeline cannot decide itself is read from an environment: the answer of the
  embedding service to its k-th request (None when \<open>requests\<close> raises), whether numpy
  and faiss accept a list of embeddings, the k-th random number, whether an operation
  on the file system succeeds, what the files under \<open>files_location\<close> are and what a
  parser makes of one, and what the handlers of a repository and of a wiki space return.
\<close>

record env =
  http_post :: "nat \<Rightarrow> string \<Rightarrow> pydict \<Rightarrow> pyval option"
  numpy_faiss_accepts :: "pyval list \<Rightarrow> bool"
  random_draw :: "nat \<Rightarrow> nat"
  mkdir_succeeds :: "string \<Rightarrow> bool"
  write_index_succeeds :: "string \<Rightarrow> bool"
  open_succeeds :: "string \<Rightarrow> bool"
  isfile :: "string \<Rightarrow> bool"
  isdir :: "string \<Rightarrow> bool"
  list_files :: "string \<Rightarrow> string list"
  parse :: "parser \<Rightarrow> string \<Rightarrow> error + Document list"
  git_installed :: bool
  git_process :: "GitSettings \<Rightarrow> error + Document list"
  confluence_installed :: bool
  confluence_process :: "ConfluenceSettings \<Rightarrow> error + Document list"

section \<open>Paths (pathlib)\<close>

text \<open>
  The parts of a relative path as \<open>pathlib\<close> reads it: the pieces between the separators,
  without the empty ones and without the single dots.
\<close>

fun split_parts :: "string \<Rightarrow> string list" where
  "split_parts [] = [[]]"
| "split_parts (c # cs) =
     (if c = CHR ''/'' then [] # split_parts cs
      else (case split_parts cs of p # ps \<Rightarrow> (c # p) # ps | [] \<Rightarrow> [[c]]))"

definition path_components :: "string \<Rightarrow> string list" where
  "path_components path = filter (\<lambda>part. part \<noteq> [] \<and> part \<noteq> ''.'') (split_parts path)"

section \<open>Collision-safe names (utils.py)\<close>

definition alphabet :: string where
  "alphabet = ''ABCDEFGHIJKLMNOPQRSTUVWXYZ0123456789''"

text \<open>\<open>random.choices(alphabet, k=length)\<close>, reading \<open>length\<close> draws from position k on.\<close>

definition random_suffix :: "(nat \<Rightarrow> nat) \<Rightarrow> nat \<Rightarrow> nat \<Rightarrow> string" where
  "random_suffix rnd k len =
     map (\<lambda>j. alphabet ! (rnd (k + j) mod length alphabet)) [0..<len]"

text \<open>
  The loop of \<open>ensure_unique_path\<close> runs until a candidate does not exist; nothing bounds
  the number of rounds, so not returning is the value None.
\<close>

partial_function (option) ensure_unique_path_loop ::
  "(string \<Rightarrow> bool) \<Rightarrow> (nat \<Rightarrow> nat) \<Rightarrow> string \<Rightarrow> string \<Rightarrow> nat \<Rightarrow> (string \<times> nat) option"
where
  "ensure_unique_path_loop ex rnd desired_name candidate k =
     (if ex candidate
      then ensure_unique_path_loop ex rnd desired_name
             (desired_name @ ''_'' @ random_suffix rnd k 4) (k + 4)
      else Some (candidate, k))"

definition path_exists :: "world \<Rightarrow> string \<Rightarrow> bool" where
  "path_exists w name = (dirs w name \<noteq> None \<or> name \<in> other_entries w)"

definition ensure_unique_path :: "env \<Rightarrow> world \<Rightarrow> string \<Rightarrow> (string \<times> world) option" where
  "ensure_unique_path e w desired_name =
     (case ensure_unique_path_loop (path_exists w) (random_draw e)
             desired_name desired_name (draws w) of
        None \<Rightarrow> None
      | Some (candidate, k) \<Rightarrow> Some (candidate, w\<lparr>draws := k\<rparr>))"

section \<open>Index builder (vector_store.py)\<close>

definition metadata_entry :: "nat \<Rightarrow> Document \<Rightarrow> pydict" where
  "metadata_entry doc_id doc =
     AList.update ''id'' (PInt (int doc_id))
       (AList.update ''text'' (PStr (doc_text doc)) (metadata doc))"

definition metadata_list :: "Document list \<Rightarrow> pydict list" where
  "metadata_list documents = map (\<lambda>(doc_id, doc). metadata_entry doc_id doc) (enumerate 0 documents)"

definition log_event :: "event \<Rightarrow> world \<Rightarrow> world" where
  "log_event ev w = w\<lparr>events := events w @ [ev]\<rparr>"

definition empty_dir :: store_dir where
  "empty_dir = \<lparr>index_faiss = None, metadata_file = None\<rparr>"

text \<open>\<open>mkdir(parents=True, exist_ok=True)\<close>: an existing directory is left as it is.\<close>

definition mkdir :: "string \<Rightarrow> world \<Rightarrow> world" where
  "mkdir name w =
     (case dirs w name of
        None \<Rightarrow> w\<lparr>dirs := (dirs w)(name \<mapsto> empty_dir)\<rparr>
      | Some _ \<Rightarrow> w)"

definition put_index :: "string \<Rightarrow> faiss_index \<Rightarrow> world \<Rightarrow> world" where
  "put_index name ix w =
     (case dirs w name of
        None \<Rightarrow> w
      | Some d \<Rightarrow> w\<lparr>dirs := (dirs w)(name \<mapsto> d\<lparr>index_faiss := Some ix\<rparr>)\<rparr>)"

definition put_metadata :: "string \<Rightarrow> metadata_json \<Rightarrow> world \<Rightarrow> world" where
  "put_metadata name m w =
     (case dirs w name of
        None \<Rightarrow> w
      | Some d \<Rightarrow> w\<lparr>dirs := (dirs w)(name \<mapsto> d\<lparr>metadata_file := Some m\<rparr>)\<rparr>)"

text \<open>
  The persistence half of \<open>build\<close> (lines 112 to 126): resolve the name, create the
  directory, write the index, open the metadata file and dump the list into it.
\<close>

definition persist ::
  "env \<Rightarrow> world \<Rightarrow> string \<Rightarrow> faiss_index \<Rightarrow> pydict list \<Rightarrow> ((error + string) \<times> world) option"
where
  "persist e w store_name ix mlist =
     (case ensure_unique_path e w store_name of
        None \<Rightarrow> None
      | Some (final_name, w1) \<Rightarrow>
          let w2 = log_event (Mkdir final_name) w1 in
          if \<not> mkdir_succeeds e final_name then Some (Inl OSError, w2)
          else
            let w3 = log_event (WriteIndex final_name) (mkdir final_name w2) in
            if \<not> write_index_succeeds e final_name then Some (Inl OSError, w3)
            else
              let w4 = log_event (OpenMetadata final_name) (put_index final_name ix w3) in
              if \<not> open_succeeds e final_name then Some (Inl OSError, w4)
              else if \<not> (\<forall>entry \<in> set mlist. json_serializable (PDict entry))
              then Some (Inl TypeError, put_metadata final_name Incomplete w4)
              else Some (Inr final_name, put_metadata final_name (Dumped mlist) w4))"

definition build ::
  "env \<Rightarrow> world \<Rightarrow> string \<Rightarrow> Document list \<Rightarrow> pyval list \<Rightarrow> ((error + string) \<times> world) option"
where
  "build e w store_name documents embeddings =
     (if length documents \<noteq> length embeddings
      then Some (Inl (ValueError_length_mismatch (length documents) (length embeddings)), w)
      else if embeddings = [] then Some (Inl ValueError_no_embeddings, w)
      else
        (case py_len (hd embeddings) of
           Inl err \<Rightarrow> Some (Inl err, w)
         | Inr d \<Rightarrow>
             if \<not> numpy_faiss_accepts e embeddings then Some (Inl LibraryError, w)
             else
               let w1 = log_event (FaissAddWithIds d (length embeddings)) w;
                   ix = \<lparr>dim = d, id_vectors = enumerate 0 embeddings\<rparr>
               in persist e w1 store_name ix (metadata_list documents)))"

section \<open>Embedding client (embedding_client.py)\<close>

text \<open>
  \<open>range(0, stop, step)\<close>: a zero step raises ValueError, a negative step gives the
  empty range, a positive step the multiples of the step below \<open>stop\<close>.
\<close>

function range_from :: "nat \<Rightarrow> nat \<Rightarrow> nat \<Rightarrow> nat list" where
  "range_from start stop step =
     (if step = 0 \<or> stop \<le> start then []
      else start # range_from (start + step) stop step)"
  by pat_completeness auto
termination
  by (relation "measure (\<lambda>(start, stop, step). stop - start)") auto

declare range_from.simps [simp del]

definition py_range :: "nat \<Rightarrow> int \<Rightarrow> error + nat list" where
  "py_range stop step =
     (if step = 0 then Inl ValueError_range_step_zero
      else if step < 0 then Inr []
      else Inr (range_from 0 stop (nat step)))"

text \<open>\<open>payload = {"input": batch}; payload.update(model_kwargs)\<close>\<close>

definition dict_update :: "pydict \<Rightarrow> pydict \<Rightarrow> pydict" where
  "dict_update d other = fold (\<lambda>(k, v). AList.update k v) other d"

definition make_payload :: "EmbeddingConfig \<Rightarrow> string list \<Rightarrow> pydict" where
  "make_payload cfg batch = dict_update [(''input'', PList (map PStr batch))] (model_kwargs cfg)"

text \<open>
  \<open>data.get("data", [])\<close> needs a dict; the \<open>for\<close> loop over the value needs an
  iterable: a list gives its items, a string its characters, a dict its keys.
\<close>

fun get_data :: "pyval \<Rightarrow> error + pyval" where
  "get_data (PDict d) = (case map_of d ''data'' of None \<Rightarrow> Inr (PList []) | Some v \<Rightarrow> Inr v)"
| "get_data _ = Inl AttributeError"

fun iterate :: "pyval \<Rightarrow> error + pyval list" where
  "iterate (PList xs) = Inr xs"
| "iterate (PStr s) = Inr (map (\<lambda>c. PStr [c]) s)"
| "iterate (PDict d) = Inr (map (\<lambda>kv. PStr (fst kv)) d)"
| "iterate _ = Inl TypeError"

fun parse_item :: "pyval \<Rightarrow> error + pyval" where
  "parse_item (PDict d) =
     (case map_of d ''embedding'' of
        Some v \<Rightarrow> Inr v
      | None \<Rightarrow> Inl ValueError_unexpected_format)"
| "parse_item (PList xs) = Inr (PList xs)"
| "parse_item _ = Inl ValueError_unexpected_format"

fun parse_items :: "pyval list \<Rightarrow> pyval list \<Rightarrow> error + pyval list" where
  "parse_items [] batch_embeddings = Inr batch_embeddings"
| "parse_items (item # items) batch_embeddings =
     (case parse_item item of
        Inl err \<Rightarrow> Inl err
      | Inr v \<Rightarrow> parse_items items (batch_embeddings @ [v]))"

definition parse_response :: "pyval \<Rightarrow> nat \<Rightarrow> error + pyval list" where
  "parse_response data n =
     (case get_data data of
        Inl err \<Rightarrow> Inl err
      | Inr v \<Rightarrow>
          (case iterate v of
             Inl err \<Rightarrow> Inl err
           | Inr items \<Rightarrow>
               (case parse_items items [] of
                  Inl err \<Rightarrow> Inl err
                | Inr batch_embeddings \<Rightarrow>
                    if length batch_embeddings \<noteq> n
                    then Inl (ValueError_expected_got n (length batch_embeddings))
                    else Inr batch_embeddings)))"

text \<open>One round of the loop of \<open>embed_documents\<close>: one request and its response.\<close>

definition embed_batch ::
  "env \<Rightarrow> EmbeddingConfig \<Rightarrow> world \<Rightarrow> string list \<Rightarrow> (error + pyval list) \<times> world"
where
  "embed_batch e cfg w batch =
     (let payload = make_payload cfg batch;
          w1 = (log_event (HttpPost (endpoint cfg) payload) w)\<lparr>posts := posts w + 1\<rparr>
      in case http_post e (posts w) (endpoint cfg) payload of
           None \<Rightarrow> (Inl RequestException, w1)
         | Some data \<Rightarrow> (parse_response data (length batch), w1))"

fun embed_batches ::
  "env \<Rightarrow> EmbeddingConfig \<Rightarrow> string list \<Rightarrow> nat list \<Rightarrow> pyval list \<Rightarrow> world
     \<Rightarrow> (error + pyval list) \<times> world"
where
  "embed_batches e cfg documents [] embeddings w = (Inr embeddings, w)"
| "embed_batches e cfg documents (start # starts) embeddings w =
     (let batch = take (nat (batch_size cfg)) (drop start documents)
      in case embed_batch e cfg w batch of
           (Inl err, w1) \<Rightarrow> (Inl err, w1)
         | (Inr batch_embeddings, w1) \<Rightarrow>
             embed_batches e cfg documents starts (embeddings @ batch_embeddings) w1)"

definition embed_documents ::
  "env \<Rightarrow> EmbeddingConfig \<Rightarrow> world \<Rightarrow> string list \<Rightarrow> (error + pyval list) \<times> world"
where
  "embed_documents e cfg w documents =
     (if documents = [] then (Inr [], w)
      else
        (case py_range (length documents) (batch_size cfg) of
           Inl err \<Rightarrow> (Inl err, w)
         | Inr starts \<Rightarrow> embed_batches e cfg documents starts [] w))"

section \<open>Parser factory (factory.py)\<close>

definition lower :: "string \<Rightarrow> string" where
  "lower s =
     map (\<lambda>c. let n = (of_char c :: nat) in if 65 \<le> n \<and> n \<le> 90 then char_of (n + 32) else c) s"

text \<open>
  \<open>Path(file_path).suffix\<close>: the last part of the path from its last dot on, unless that
  dot is its first or its last character.
\<close>

definition suffix_of :: "string \<Rightarrow> string" where
  "suffix_of file_path =
     (let parts = path_components file_path;
          name = (if parts = [] then [] else last parts);
          ext = rev (takeWhile (\<lambda>c. c \<noteq> CHR ''.'') (rev name));
          i = length name - length ext - 1
      in if CHR ''.'' \<in> set name \<and> 0 < i \<and> i < length name - 1 then drop i name else [])"

definition parsers :: "(string \<times> parser) list" where
  "parsers =
     [(''.txt'', TextParser), (''.md'', TextParser), (''.csv'', CSVParser),
      (''.tsv'', CSVParser), (''.xlsx'', ExcelParser), (''.xls'', ExcelParser),
      (''.pdf'', PDFParser), (''.docx'', WordParser), (''.doc'', WordParser),
      (''.png'', ImageParser), (''.jpg'', ImageParser), (''.jpeg'', ImageParser),
      (''.tiff'', ImageParser), (''.bmp'', ImageParser)]"

definition get_parser :: "string \<Rightarrow> parser option" where
  "get_parser file_path = map_of parsers (lower (suffix_of file_path))"

section \<open>Pipeline (cli.py)\<close>

fun parse_listed :: "env \<Rightarrow> string list \<Rightarrow> Document list \<Rightarrow> error + Document list" where
  "parse_listed e [] documents = Inr documents"
| "parse_listed e (file_path # rest) documents =
     (case get_parser file_path of
        None \<Rightarrow> parse_listed e rest documents
      | Some p \<Rightarrow>
          (case parse e p file_path of
             Inl err \<Rightarrow> Inl err
           | Inr docs \<Rightarrow> parse_listed e rest (documents @ docs)))"

definition collect_files :: "env \<Rightarrow> AppConfig \<Rightarrow> error + Document list" where
  "collect_files e config =
     (case files_location config of
        None \<Rightarrow> Inr []
      | Some path \<Rightarrow>
          if path = [] then Inr []
          else if isfile e path then parse_listed e [path] []
          else if isdir e path then parse_listed e (list_files e path) []
          else Inr [])"

definition collect_git :: "env \<Rightarrow> AppConfig \<Rightarrow> world \<Rightarrow> (error + Document list) \<times> world" where
  "collect_git e config w =
     (case git_settings config of
        None \<Rightarrow> (Inr [], w)
      | Some settings \<Rightarrow>
          if \<not> git_installed e then (Inl RuntimeError_missing_dependency, w)
          else (git_process e settings, log_event (GitClone (git_url settings)) w))"

definition collect_confluence ::
  "env \<Rightarrow> AppConfig \<Rightarrow> world \<Rightarrow> (error + Document list) \<times> world"
where
  "collect_confluence e config w =
     (case confluence_settings config of
        None \<Rightarrow> (Inr [], w)
      | Some settings \<Rightarrow>
          if \<not> confluence_installed e then (Inl RuntimeError_missing_dependency, w)
          else (confluence_process e settings,
                log_event (ConfluenceListPages (space_key settings)) w))"

definition attach_session_id :: "string option \<Rightarrow> Document list \<Rightarrow> Document list" where
  "attach_session_id sid documents =
     (case sid of
        None \<Rightarrow> documents
      | Some s \<Rightarrow>
          if s = [] then documents
          else map (\<lambda>doc. doc\<lparr>metadata := AList.update ''session_id'' (PStr s) (metadata doc)\<rparr>)
                 documents)"

definition collect_documents ::
  "env \<Rightarrow> AppConfig \<Rightarrow> world \<Rightarrow> (error + Document list) \<times> world"
where
  "collect_documents e config w =
     (case collect_files e config of
        Inl err \<Rightarrow> (Inl err, w)
      | Inr docs1 \<Rightarrow>
          (case collect_git e config w of
             (Inl err, w1) \<Rightarrow> (Inl err, w1)
           | (Inr docs2, w1) \<Rightarrow>
               (case collect_confluence e config w1 of
                  (Inl err, w2) \<Rightarrow> (Inl err, w2)
                | (Inr docs3, w2) \<Rightarrow>
                    let documents = docs1 @ docs2 @ docs3 in
                    if documents = [] then (Inl RuntimeError_no_documents, w2)
                    else (Inr (attach_session_id (session_id config) documents), w2))))"

definition run_pipeline ::
  "env \<Rightarrow> AppConfig \<Rightarrow> world \<Rightarrow> ((error + string) \<times> world) option"
where
  "run_pipeline e config w =
     (case collect_documents e config w of
        (Inl err, w1) \<Rightarrow> Some (Inl err, w1)
      | (Inr documents, w1) \<Rightarrow>
          let texts = map doc_text documents in
          (case embed_documents e (embedding_config config) w1 texts of
             (Inl err, w2) \<Rightarrow> Some (Inl err, w2)
           | (Inr embeddings, w2) \<Rightarrow>
               build e w2 (vector_store_name config) documents embeddings))"

section \<open>Vocabulary of the properties and example inputs\<close>

text \<open>The fields of a metadata entry other than \<open>id\<close> and \<open>text\<close>, in order.\<close>

definition other_fields :: "pydict \<Rightarrow> pydict" where
  "other_fields entry = filter (\<lambda>kv. fst kv \<noteq> ''id'' \<and> fst kv \<noteq> ''text'') entry"

text \<open>
  An environment in which everything works: the service answers every input with a raw
  vector of two numbers, and a single text file is found under \<open>notes.txt\<close>.
\<close>

definition example_env :: env where
  "example_env =
     \<lparr>http_post = (\<lambda>k url payload.
          case map_of payload ''input'' of
            Some (PList xs) \<Rightarrow> Some (PDict [(''data'', PList (map (\<lambda>x. PList [PInt 1, PInt 2]) xs))])
          | _ \<Rightarrow> None),
       numpy_faiss_accepts = (\<lambda>vs. True),
       random_draw = (\<lambda>k. k),
       mkdir_succeeds = (\<lambda>name. True),
       write_index_succeeds = (\<lambda>name. True),
       open_succeeds = (\<lambda>name. True),
       isfile = (\<lambda>path. path = ''notes.txt''),
       isdir = (\<lambda>path. False),
       list_files = (\<lambda>path. []),
       parse = (\<lambda>p path. Inr [\<lparr>doc_text = ''hello'', metadata = [(''file_path'', PStr path)]\<rparr>]),
       git_installed = True,
       git_process = (\<lambda>settings. Inr []),
       confluence_installed = True,
       confluence_process = (\<lambda>settings. Inr [])\<rparr>"

definition empty_world :: world where
  "empty_world = \<lparr>dirs = Map.empty, other_entries = {}, events = [], draws = 0, posts = 0\<rparr>"

definition doc_a :: Document where
  "doc_a = \<lparr>doc_text = ''alpha'', metadata = [(''file_path'', PStr ''a.txt'')]\<rparr>"

definition doc_b :: Document where
  "doc_b = \<lparr>doc_text = ''beta'', metadata = [(''text'', PStr ''old''), (''id'', PInt 99)]\<rparr>"

definition two_vectors :: "pyval list" where
  "two_vectors = [PList [PInt 1, PInt 2], PList [PInt 3, PInt 4]]"

text \<open>
  A store directory is complete when it holds the index file and a metadata file that
  was written to the end.
\<close>

definition complete_store :: "store_dir \<Rightarrow> bool" where
  "complete_store sd =
     (case metadata_file sd of
        Some (Dumped mlist) \<Rightarrow> index_faiss sd \<noteq> None
      | _ \<Rightarrow> False)"

definition example_config :: AppConfig where
  "example_config =
     \<lparr>vector_store_path = ''out'', vector_store_name = ''store1'', session_id = None,
       files_location = Some ''notes.txt'', git_settings = None, confluence_settings = None,
       embedding_config = \<lparr>endpoint = ''http://localhost:8001/v1/embeddings'',
                             batch_size = 32, model_kwargs = []\<rparr>\<rparr>"

definition world_one :: world where
  "world_one =
     \<lparr>dirs = [''store1'' \<mapsto>
         \<lparr>index_faiss = Some \<lparr>dim = 2, id_vectors = [(0, PList [PInt 1, PInt 2]), (1, PList [PInt 3, PInt 4])]\<rparr>,
          metadata_file = Some (Dumped
            [[(''file_path'', PStr ''a.txt''), (''text'', PStr ''alpha''), (''id'', PInt 0)],
             [(''text'', PStr ''beta''), (''id'', PInt 1)]])\<rparr>],
       other_entries = {},
       events = [FaissAddWithIds 2 2, Mkdir ''store1'', WriteIndex ''store1'', OpenMetadata ''store1''],
       draws = 0, posts = 0\<rparr>"

definition world_two :: world where
  "world_two =
     world_one\<lparr>dirs := (dirs world_one)(''store1_ABCD'' \<mapsto>
         \<lparr>index_faiss = Some \<lparr>dim = 1, id_vectors = [(0, PList [PInt 5])]\<rparr>,
          metadata_file = Some (Dumped
            [[(''file_path'', PStr ''a.txt''), (''text'', PStr ''alpha''), (''id'', PInt 0)]])\<rparr>),
       events := events world_one @ [FaissAddWithIds 1 1, Mkdir ''store1_ABCD'', WriteIndex ''store1_ABCD'', OpenMetadata ''store1_ABCD''],
       draws := 4\<rparr>"

definition env_open_fails :: env where
  "env_open_fails = example_env\<lparr>open_succeeds := (\<lambda>name. False)\<rparr>"

definition world_partial :: world where
  "world_partial =
     \<lparr>dirs = [''store1'' \<mapsto>
         \<lparr>index_faiss = Some \<lparr>dim = 2, id_vectors = [(0, PList [PInt 1, PInt 2])]\<rparr>,
          metadata_file = None\<rparr>],
       other_entries = {},
       events = [HttpPost ''http://localhost:8001/v1/embeddings'' [(''input'', PList [PStr ''hello''])],
                 FaissAddWithIds 2 1, Mkdir ''store1'', WriteIndex ''store1'', OpenMetadata ''store1''],
       draws = 0, posts = 1\<rparr>"

definition doc_hello :: Document where
  "doc_hello = \<lparr>doc_text = ''hello'', metadata = [(''file_path'', PStr ''notes.txt'')]\<rparr>"

definition world_posted :: world where
  "world_posted =
     \<lparr>dirs = Map.empty,
       other_entries = {},
       events = [HttpPost ''http://localhost:8001/v1/embeddings'' [(''input'', PList [PStr ''hello''])]],
       draws = 0, posts = 1\<rparr>"

text \<open>
  The items the client takes a vector from: a list, which is taken as it is, and a dict
  with the key \<open>embedding\<close>, whose value is taken; \<open>item_vector\<close> is the value taken, of
  which nothing is checked. A response is well formed for n inputs when its \<open>data\<close> field
  is a list of n such items.
\<close>

definition item_vector :: "pyval \<Rightarrow> pyval option" where
  "item_vector item =
     (case item of
        PList xs \<Rightarrow> Some (PList xs)
      | PDict d \<Rightarrow> map_of d ''embedding''
      | _ \<Rightarrow> None)"

definition accepted_shape :: "pyval \<Rightarrow> bool" where
  "accepted_shape item = (item_vector item \<noteq> None)"

fun response_items :: "pyval \<Rightarrow> pyval list option" where
  "response_items (PDict d) =
     (case map_of d ''data'' of Some (PList items) \<Rightarrow> Some items | _ \<Rightarrow> None)"
| "response_items _ = None"

definition well_formed_response :: "pyval \<Rightarrow> nat \<Rightarrow> bool" where
  "well_formed_response data n =
     (case response_items data of
        Some items \<Rightarrow> length items = n \<and> list_all accepted_shape items
      | None \<Rightarrow> False)"

text \<open>
  A response carries, position by position, the vectors \<open>vec\<close> assigns to the texts of
  the batch.
\<close>

definition carries :: "(string \<Rightarrow> pyval) \<Rightarrow> pyval \<Rightarrow> string list \<Rightarrow> bool" where
  "carries vec data batch =
     (case response_items data of
        Some items \<Rightarrow> map item_vector items = map (\<lambda>t. Some (vec t)) batch
      | None \<Rightarrow> False)"


definition batch2_config :: EmbeddingConfig where
  "batch2_config =
     \<lparr>endpoint = ''http://localhost:8001/v1/embeddings'', batch_size = 2, model_kwargs = []\<rparr>"

definition five_texts :: "string list" where
  "five_texts = [''a'', ''b'', ''c'', ''d'', ''e'']"


text \<open>
  Projections of the log: the faiss calls, the calls that leave the machine, and the
  requests to the embedding service.
\<close>

fun is_index_event :: "event \<Rightarrow> bool" where
  "is_index_event (FaissAddWithIds d n) = True"
| "is_index_event _ = False"

definition index_events :: "world \<Rightarrow> event list" where
  "index_events w = filter is_index_event (events w)"

definition short_env :: env where
  "short_env = example_env
     \<lparr>http_post := (\<lambda>k url payload. Some (PDict [(''data'', PList [PList [PInt 1, PInt 2]])])),
      parse := (\<lambda>p path. Inr [doc_a, doc_b])\<rparr>"





text \<open>
  The metadata fields other than \<open>session_id\<close>, in order.
\<close>

definition unstamped_fields :: "pydict \<Rightarrow> pydict" where
  "unstamped_fields entry = filter (\<lambda>kv. fst kv \<noteq> ''session_id'') entry"

definition blank_session_config :: AppConfig where
  "blank_session_config = example_config\<lparr>session_id := Some ''''\<rparr>"

definition session_config :: AppConfig where
  "session_config = example_config\<lparr>session_id := Some ''s1''\<rparr>"

text \<open>
  A store name that is one path component: joined to the base directory by
  \<open>Path(base_dir) / name\<close> it names an entry of the base directory itself. The empty name
  and \<open>.\<close> name the base directory, \<open>..\<close> its parent, and a name with a separator an
  entry further down.
\<close>

definition single_component :: "string \<Rightarrow> bool" where
  "single_component name =
     (name \<noteq> [] \<and> CHR ''/'' \<notin> set name \<and> name \<noteq> ''.'' \<and> name \<noteq> ''..'')"

text \<open>
  \<open>inside outer inner\<close>: the path \<open>inner\<close> lies strictly below the path \<open>outer\<close>, both
  relative to the base directory.
\<close>

definition inside :: "string \<Rightarrow> string \<Rightarrow> bool" where
  "inside outer inner =
     (let a = path_components outer; b = path_components inner
      in length a < length b \<and> take (length a) b = a)"

text \<open>
  The worlds after one and after two builds that request the name \<open>store1/\<close>.
\<close>

definition world_nested_one :: world where
  "world_nested_one =
     \<lparr>dirs = [''store1/'' \<mapsto>
         \<lparr>index_faiss = Some \<lparr>dim = 2, id_vectors = [(0, PList [PInt 1, PInt 2]), (1, PList [PInt 3, PInt 4])]\<rparr>,
          metadata_file = Some (Dumped
            [[(''file_path'', PStr ''a.txt''), (''text'', PStr ''alpha''), (''id'', PInt 0)],
             [(''text'', PStr ''beta''), (''id'', PInt 1)]])\<rparr>],
       other_entries = {},
       events = [FaissAddWithIds 2 2, Mkdir ''store1/'', WriteIndex ''store1/'', OpenMetadata ''store1/''],
       draws = 0, posts = 0\<rparr>"

definition world_nested_two :: world where
  "world_nested_two =
     world_nested_one\<lparr>dirs := (dirs world_nested_one)(''store1/_ABCD'' \<mapsto>
         \<lparr>index_faiss = Some \<lparr>dim = 1, id_vectors = [(0, PList [PInt 5])]\<rparr>,
          metadata_file = Some (Dumped
            [[(''file_path'', PStr ''a.txt''), (''text'', PStr ''alpha''), (''id'', PInt 0)]])\<rparr>),
       events := events world_nested_one @ [FaissAddWithIds 1 1, Mkdir ''store1/_ABCD'', WriteIndex ''store1/_ABCD'', OpenMetadata ''store1/_ABCD''],
       draws := 4\<rparr>"

text \<open>
  The shapes of an item as the specification words them: a raw numeric vector, a list
  of numbers, or an object that carries such a vector under its \<open>embedding\<close> field.
\<close>

fun is_number :: "pyval \<Rightarrow> bool" where
  "is_number (PInt i) = True"
| "is_number (PFloat x) = True"
| "is_number _ = False"

fun numeric_vector :: "pyval \<Rightarrow> bool" where
  "numeric_vector (PList xs) = list_all is_number xs"
| "numeric_vector _ = False"

fun claimed_shape :: "pyval \<Rightarrow> bool" where
  "claimed_shape (PDict d) =
     (case map_of d ''embedding'' of Some v \<Rightarrow> numeric_vector v | None \<Rightarrow> False)"
| "claimed_shape item = numeric_vector item"

text \<open>
  A service that answers every request with one list of a string and one object whose
  \<open>embedding\<close> field is a single number, and a service whose \<open>data\<close> field is a string.
\<close>

definition text_env :: env where
  "text_env = short_env
     \<lparr>http_post := (\<lambda>k url payload.
        Some (PDict [(''data'', PList [PList [PStr ''x''], PDict [(''embedding'', PInt 5)]])]))\<rparr>"

definition string_env :: env where
  "string_env = short_env
     \<lparr>http_post := (\<lambda>k url payload. Some (PDict [(''data'', PStr ''ab'')]))\<rparr>"

text \<open>
  The steps of \<open>build\<close> that the log records, in the order the code takes them: the
  index is filled, the directory is created, the index file is written, the metadata file
  is opened. Each is logged when it is attempted.
\<close>

fun is_build_step :: "event \<Rightarrow> bool" where
  "is_build_step (FaissAddWithIds d n) = True"
| "is_build_step (Mkdir name) = True"
| "is_build_step (WriteIndex name) = True"
| "is_build_step (OpenMetadata name) = True"
| "is_build_step _ = False"

definition build_steps :: "world \<Rightarrow> event list" where
  "build_steps w = filter is_build_step (events w)"


section \<open>Index builder: properties\<close>

lemma other_fields_update:
  "k = ''id'' \<or> k = ''text'' \<Longrightarrow> other_fields (AList.update k v al) = other_fields al"
  by (induction al) (auto simp: other_fields_def)

lemma other_fields_entry: "other_fields (metadata_entry i doc) = other_fields (metadata doc)"
  by (simp add: metadata_entry_def other_fields_update)

lemma serializable_update:
  "json_serializable v \<Longrightarrow> json_serializable (PDict al)
     \<Longrightarrow> json_serializable (PDict (AList.update k v al))"
  by (induction al) auto

lemma entry_serializable:
  "json_serializable (PDict (metadata doc)) \<Longrightarrow> json_serializable (PDict (metadata_entry i doc))"
  unfolding metadata_entry_def by (intro serializable_update) simp_all

lemma length_metadata_list: "length (metadata_list documents) = length documents"
  by (simp add: metadata_list_def)

lemma nth_metadata_list:
  "i < length documents \<Longrightarrow> metadata_list documents ! i = metadata_entry i (documents ! i)"
  by (simp add: metadata_list_def nth_enumerate_eq)

lemma metadata_list_serializable:
  assumes "\<forall>doc \<in> set documents. json_serializable (PDict (metadata doc))"
  shows "\<forall>entry \<in> set (metadata_list documents). json_serializable (PDict entry)"
proof
  fix entry assume "entry \<in> set (metadata_list documents)"
  then obtain i where i: "i < length documents" "entry = metadata_entry i (documents ! i)"
    unfolding in_set_conv_nth length_metadata_list using nth_metadata_list by auto
  from i(1) assms have "json_serializable (PDict (metadata (documents ! i)))"
    using nth_mem by blast
  with i(2) show "json_serializable (PDict entry)" by (simp only: entry_serializable)
qed


lemma loop_fresh:
  assumes "ensure_unique_path_loop ex rnd d c k = Some r"
  shows "\<not> ex (fst r)"
proof (rule ensure_unique_path_loop.raw_induct
         [where P = "\<lambda>ex rnd d c k r. \<not> ex (fst r)", OF _ assms])
  fix loop :: "(string \<Rightarrow> bool) \<Rightarrow> (nat \<Rightarrow> nat) \<Rightarrow> string \<Rightarrow> string \<Rightarrow> nat \<Rightarrow> (string \<times> nat) option"
    and ex rnd d c k r
  assume "\<And>ex rnd d c k r. loop ex rnd d c k = Some r \<Longrightarrow> \<not> ex (fst r)"
    and "(if ex c then loop ex rnd d (d @ ''_'' @ random_suffix rnd k 4) (k + 4)
          else Some (c, k)) = Some r"
  then show "\<not> ex (fst r)" by (fastforce split: if_splits)
qed

lemma persist_success:
  assumes loop: "ensure_unique_path_loop (path_exists w) (random_draw e)
                   store_name store_name (draws w) = Some (final_name, k)"
    and io: "mkdir_succeeds e final_name" "write_index_succeeds e final_name"
            "open_succeeds e final_name"
    and ser: "\<forall>entry \<in> set mlist. json_serializable (PDict entry)"
  shows "\<exists>w'. persist e w store_name ix mlist = Some (Inr final_name, w')
           \<and> dirs w' = (dirs w)(final_name \<mapsto>
                 \<lparr>index_faiss = Some ix, metadata_file = Some (Dumped mlist)\<rparr>)"
proof -
  have fresh: "dirs w final_name = None"
    using loop_fresh [OF loop] by (simp add: path_exists_def)
  have name: "ensure_unique_path e w store_name = Some (final_name, w\<lparr>draws := k\<rparr>)"
    by (simp add: ensure_unique_path_def loop)
  have ser': "(\<forall>entry \<in> set mlist. json_serializable (PDict entry)) = True"
    using ser by blast
  show ?thesis
    unfolding persist_def name ser'
    using io fresh
    by (simp add: Let_def log_event_def mkdir_def put_index_def put_metadata_def empty_dir_def)
qed


lemma path_exists_log_event: "path_exists (log_event ev w) = path_exists w"
  by (rule ext) (simp add: path_exists_def log_event_def)

lemma build_success:
  assumes "embeddings \<noteq> []" "length documents = length embeddings"
    and "py_len (hd embeddings) = Inr d"
    and "numpy_faiss_accepts e embeddings"
    and loop: "ensure_unique_path_loop (path_exists w) (random_draw e)
                   store_name store_name (draws w) = Some (final_name, k)"
    and io: "mkdir_succeeds e final_name" "write_index_succeeds e final_name"
            "open_succeeds e final_name"
    and ser: "\<forall>doc \<in> set documents. json_serializable (PDict (metadata doc))"
  shows "\<exists>w'. build e w store_name documents embeddings = Some (Inr final_name, w')
           \<and> dirs w' = (dirs w)(final_name \<mapsto>
                 \<lparr>index_faiss = Some \<lparr>dim = d, id_vectors = enumerate 0 embeddings\<rparr>,
                  metadata_file = Some (Dumped (metadata_list documents))\<rparr>)"
proof -
  let ?w1 = "log_event (FaissAddWithIds d (length embeddings)) w"
  have "ensure_unique_path_loop (path_exists ?w1) (random_draw e)
                   store_name store_name (draws ?w1) = Some (final_name, k)"
    using loop by (simp add: path_exists_log_event) (simp add: log_event_def)
  from persist_success [OF this io metadata_list_serializable [OF ser]]
  show ?thesis using assms(1-4) by (simp add: build_def Let_def log_event_def)
qed

lemma entry_id: "map_of (metadata_entry i doc) ''id'' = Some (PInt (int i))"
  by (simp add: metadata_entry_def update_conv')

lemma entry_text: "map_of (metadata_entry i doc) ''text'' = Some (PStr (doc_text doc))"
  by (simp add: metadata_entry_def update_conv')

text \<open>
  Claim C1. For documents and embeddings of equal, non-zero length, when the libraries and
  the file system cooperate, \<open>build\<close> returns the resolved name and the metadata file it
  wrote holds one entry per document, in input order: entry i has \<open>id\<close> equal to i,
  \<open>text\<close> equal to the text of document i, and its other fields are those of the
  metadata of document i.
\<close>

theorem build_metadata_projection:
  assumes "embeddings \<noteq> []" and "length documents = length embeddings"
    and "py_len (hd embeddings) = Inr d"
    and "numpy_faiss_accepts e embeddings"
    and "ensure_unique_path_loop (path_exists w) (random_draw e)
           store_name store_name (draws w) = Some (final_name, k)"
    and "mkdir_succeeds e final_name" and "write_index_succeeds e final_name"
    and "open_succeeds e final_name"
    and "\<forall>doc \<in> set documents. json_serializable (PDict (metadata doc))"
  shows "\<exists>w' sd mlist.
           build e w store_name documents embeddings = Some (Inr final_name, w')
         \<and> dirs w' final_name = Some sd \<and> metadata_file sd = Some (Dumped mlist)
         \<and> length mlist = length documents
         \<and> (\<forall>i < length documents.
               map_of (mlist ! i) ''id'' = Some (PInt (int i))
             \<and> map_of (mlist ! i) ''text'' = Some (PStr (doc_text (documents ! i)))
             \<and> other_fields (mlist ! i) = other_fields (metadata (documents ! i)))"
proof -
  from build_success [OF assms] obtain w' where
    ok: "build e w store_name documents embeddings = Some (Inr final_name, w')"
    and d: "dirs w' = (dirs w)(final_name \<mapsto>
                 \<lparr>index_faiss = Some \<lparr>dim = d, id_vectors = enumerate 0 embeddings\<rparr>,
                  metadata_file = Some (Dumped (metadata_list documents))\<rparr>)"
    by blast
  let ?sd = "\<lparr>index_faiss = Some \<lparr>dim = d, id_vectors = enumerate 0 embeddings\<rparr>,
              metadata_file = Some (Dumped (metadata_list documents))\<rparr>"
  have "dirs w' final_name = Some ?sd" by (simp add: d)
  moreover have "metadata_file ?sd = Some (Dumped (metadata_list documents))" by simp
  moreover have "\<forall>i < length documents.
               map_of (metadata_list documents ! i) ''id'' = Some (PInt (int i))
             \<and> map_of (metadata_list documents ! i) ''text'' = Some (PStr (doc_text (documents ! i)))
             \<and> other_fields (metadata_list documents ! i) = other_fields (metadata (documents ! i))"
    by (simp add: nth_metadata_list entry_id entry_text other_fields_entry)
  ultimately show ?thesis
    using ok length_metadata_list by blast
qed

theorem build_metadata_projection_witness:
  "\<exists>w' sd mlist.
      build example_env empty_world ''store1'' [doc_a, doc_b] two_vectors = Some (Inr ''store1'', w')
    \<and> dirs w' ''store1'' = Some sd \<and> metadata_file sd = Some (Dumped mlist)
    \<and> length mlist = length [doc_a, doc_b]
    \<and> (\<forall>i < length [doc_a, doc_b].
          map_of (mlist ! i) ''id'' = Some (PInt (int i))
        \<and> map_of (mlist ! i) ''text'' = Some (PStr (doc_text ([doc_a, doc_b] ! i)))
        \<and> other_fields (mlist ! i) = other_fields (metadata ([doc_a, doc_b] ! i)))"
proof (rule build_metadata_projection [where d = 2 and k = 0])
  show "two_vectors \<noteq> []" by (simp add: two_vectors_def)
  show "length [doc_a, doc_b] = length two_vectors" by (simp add: two_vectors_def)
  show "py_len (hd two_vectors) = Inr 2" by (simp add: two_vectors_def)
  show "numpy_faiss_accepts example_env two_vectors" by (simp add: example_env_def)
  show "ensure_unique_path_loop (path_exists empty_world) (random_draw example_env)
           ''store1'' ''store1'' (draws empty_world) = Some (''store1'', 0)"
    by (simp add: ensure_unique_path_loop.simps path_exists_def empty_world_def)
  show "mkdir_succeeds example_env ''store1''" by (simp add: example_env_def)
  show "write_index_succeeds example_env ''store1''" by (simp add: example_env_def)
  show "open_succeeds example_env ''store1''" by (simp add: example_env_def)
  show "\<forall>doc \<in> set [doc_a, doc_b]. json_serializable (PDict (metadata doc))"
    by (simp add: doc_a_def doc_b_def)
qed

text \<open>
  Claim C4. \<open>build\<close> fails with the length-mismatch ValueError when the two lists differ
  in length, and with the no-embeddings ValueError when they match and are empty; in both
  cases the world is returned as it was: no index was built and no directory created.
\<close>

theorem build_checks_cardinality:
  "(length documents \<noteq> length embeddings \<longrightarrow>
      build e w store_name documents embeddings =
        Some (Inl (ValueError_length_mismatch (length documents) (length embeddings)), w))
   \<and> (length documents = length embeddings \<and> embeddings = [] \<longrightarrow>
      build e w store_name documents embeddings = Some (Inl ValueError_no_embeddings, w))"
  by (simp add: build_def)

theorem build_checks_cardinality_witness:
  "build example_env empty_world ''store1'' [doc_a] [] =
     Some (Inl (ValueError_length_mismatch 1 0), empty_world)
   \<and> build example_env empty_world ''store1'' [] [] =
     Some (Inl ValueError_no_embeddings, empty_world)"
  using build_checks_cardinality [of "[doc_a]" "[]" example_env empty_world "''store1''"]
        build_checks_cardinality [of "[]" "[]" example_env empty_world "''store1''"]
  by simp

lemma loop_shape:
  assumes "ensure_unique_path_loop ex rnd d c k = Some r"
  shows "fst r = c \<or> (\<exists>j. fst r = d @ ''_'' @ random_suffix rnd j 4)"
proof (rule ensure_unique_path_loop.raw_induct
         [where P = "\<lambda>ex rnd d c k r. fst r = c \<or> (\<exists>j. fst r = d @ ''_'' @ random_suffix rnd j 4)",
          OF _ assms])
  fix loop :: "(string \<Rightarrow> bool) \<Rightarrow> (nat \<Rightarrow> nat) \<Rightarrow> string \<Rightarrow> string \<Rightarrow> nat \<Rightarrow> (string \<times> nat) option"
    and ex rnd d c k r
  assume "\<And>ex rnd d c k r. loop ex rnd d c k = Some r
            \<Longrightarrow> fst r = c \<or> (\<exists>j. fst r = d @ ''_'' @ random_suffix rnd j 4)"
    and "(if ex c then loop ex rnd d (d @ ''_'' @ random_suffix rnd k 4) (k + 4)
          else Some (c, k)) = Some r"
  then show "fst r = c \<or> (\<exists>j. fst r = d @ ''_'' @ random_suffix rnd j 4)"
    by (fastforce split: if_splits)
qed

lemma persist_result:
  assumes "persist e w s ix ml = Some (r, w')"
  shows "\<exists>name k. ensure_unique_path_loop (path_exists w) (random_draw e) s s (draws w) = Some (name, k)
           \<and> dirs w name = None
           \<and> (r = Inr name \<and> dirs w' = (dirs w)(name \<mapsto> \<lparr>index_faiss = Some ix, metadata_file = Some (Dumped ml)\<rparr>)
              \<or> r = Inl OSError \<and> dirs w' = dirs w
              \<or> r = Inl OSError \<and> dirs w' = (dirs w)(name \<mapsto> empty_dir)
              \<or> r = Inl OSError \<and> dirs w' = (dirs w)(name \<mapsto> \<lparr>index_faiss = Some ix, metadata_file = None\<rparr>)
              \<or> r = Inl TypeError \<and> dirs w' = (dirs w)(name \<mapsto> \<lparr>index_faiss = Some ix, metadata_file = Some Incomplete\<rparr>))"
proof -
  from assms obtain name k where
    loop: "ensure_unique_path_loop (path_exists w) (random_draw e) s s (draws w) = Some (name, k)"
    by (auto simp: persist_def ensure_unique_path_def split: option.splits)
  have fresh: "dirs w name = None"
    using loop_fresh [OF loop] by (simp add: path_exists_def)
  have name: "ensure_unique_path e w s = Some (name, w\<lparr>draws := k\<rparr>)"
    by (simp add: ensure_unique_path_def loop)
  from assms have "r = Inr name \<and> dirs w' = (dirs w)(name \<mapsto> \<lparr>index_faiss = Some ix, metadata_file = Some (Dumped ml)\<rparr>)
              \<or> r = Inl OSError \<and> dirs w' = dirs w
              \<or> r = Inl OSError \<and> dirs w' = (dirs w)(name \<mapsto> empty_dir)
              \<or> r = Inl OSError \<and> dirs w' = (dirs w)(name \<mapsto> \<lparr>index_faiss = Some ix, metadata_file = None\<rparr>)
              \<or> r = Inl TypeError \<and> dirs w' = (dirs w)(name \<mapsto> \<lparr>index_faiss = Some ix, metadata_file = Some Incomplete\<rparr>)"
    unfolding persist_def name
    using fresh
    by (auto simp: Let_def log_event_def mkdir_def put_index_def put_metadata_def empty_dir_def
             split: if_splits)
  with loop fresh show ?thesis by blast
qed

lemma loop_unused:
  "\<not> ex c \<Longrightarrow> ensure_unique_path_loop ex rnd d c k = Some (c, k)"
  by (simp add: ensure_unique_path_loop.simps)

lemma build_Inr:
  assumes "build e w s docs embs = Some (Inr name, w')"
  shows "\<exists>k ix. ensure_unique_path_loop (path_exists w) (random_draw e) s s (draws w) = Some (name, k)
           \<and> dirs w name = None
           \<and> dirs w' = (dirs w)(name \<mapsto>
                \<lparr>index_faiss = Some ix, metadata_file = Some (Dumped (metadata_list docs))\<rparr>)"
proof -
  from assms obtain d where
    p: "persist e (log_event (FaissAddWithIds d (length embs)) w) s
          \<lparr>dim = d, id_vectors = enumerate 0 embs\<rparr> (metadata_list docs) = Some (Inr name, w')"
    by (auto simp: build_def Let_def split: if_splits sum.splits)
  from persist_result [OF p] show ?thesis
    by (auto simp: path_exists_log_event) (auto simp: log_event_def)
qed

lemma build_Inl:
  assumes "build e w s docs embs = Some (Inl err, w')"
  shows "dirs w' = dirs w
         \<or> (\<exists>name sd. dirs w name = None \<and> dirs w' = (dirs w)(name \<mapsto> sd) \<and> \<not> complete_store sd)"
proof (cases "\<exists>d. persist e (log_event (FaissAddWithIds d (length embs)) w) s
          \<lparr>dim = d, id_vectors = enumerate 0 embs\<rparr> (metadata_list docs) = Some (Inl err, w')")
  case True
  then obtain d where
    p: "persist e (log_event (FaissAddWithIds d (length embs)) w) s
          \<lparr>dim = d, id_vectors = enumerate 0 embs\<rparr> (metadata_list docs) = Some (Inl err, w')"
    by blast
  from persist_result [OF p] obtain name where
    "dirs w name = None"
    "dirs w' = dirs w
     \<or> dirs w' = (dirs w)(name \<mapsto> empty_dir)
     \<or> dirs w' = (dirs w)(name \<mapsto> \<lparr>index_faiss = Some \<lparr>dim = d, id_vectors = enumerate 0 embs\<rparr>, metadata_file = None\<rparr>)
     \<or> dirs w' = (dirs w)(name \<mapsto> \<lparr>index_faiss = Some \<lparr>dim = d, id_vectors = enumerate 0 embs\<rparr>, metadata_file = Some Incomplete\<rparr>)"
    by (auto simp: log_event_def)
  moreover have "\<not> complete_store empty_dir"
    "\<not> complete_store \<lparr>index_faiss = Some \<lparr>dim = d, id_vectors = enumerate 0 embs\<rparr>, metadata_file = None\<rparr>"
    "\<not> complete_store \<lparr>index_faiss = Some \<lparr>dim = d, id_vectors = enumerate 0 embs\<rparr>, metadata_file = Some Incomplete\<rparr>"
    by (simp_all add: complete_store_def empty_dir_def)
  ultimately show ?thesis by blast
next
  case False
  with assms have "w' = w"
    by (auto simp: build_def Let_def split: if_splits sum.splits)
  then show ?thesis by simp
qed

lemma update_same_key:
  "distinct (map fst al) \<Longrightarrow> ((k, x) \<in> set (AList.update k v al)) = (x = v)"
  by (induction al) (auto simp: image_iff)

lemma update_other_key:
  "k' \<noteq> k \<Longrightarrow> ((k', x) \<in> set (AList.update k v al)) = ((k', x) \<in> set al)"
  by (induction al) auto

lemma entry_text_values:
  assumes "distinct (map fst (metadata doc))"
  shows "((''text'', x) \<in> set (metadata_entry i doc)) = (x = PStr (doc_text doc))"
  using assms by (simp add: metadata_entry_def update_other_key update_same_key)

lemma entry_id_values:
  assumes "distinct (map fst (metadata doc))"
  shows "((''id'', x) \<in> set (metadata_entry i doc)) = (x = PInt (int i))"
  using assms by (simp add: metadata_entry_def update_same_key distinct_update)

text \<open>
  Claim C10. Whatever the metadata of a document holds under the keys \<open>text\<close> and
  \<open>id\<close>, the entry that \<open>build\<close> persists for it holds exactly one value under each of
  them: the text of the document and its position in the input. The values the metadata
  had under these two keys are not persisted.
\<close>

theorem build_overwrites_text_and_id:
  assumes "embeddings \<noteq> []" and "length documents = length embeddings"
    and "py_len (hd embeddings) = Inr d"
    and "numpy_faiss_accepts e embeddings"
    and "ensure_unique_path_loop (path_exists w) (random_draw e)
           store_name store_name (draws w) = Some (final_name, k)"
    and "mkdir_succeeds e final_name" and "write_index_succeeds e final_name"
    and "open_succeeds e final_name"
    and "\<forall>doc \<in> set documents. json_serializable (PDict (metadata doc))"
    and "\<forall>doc \<in> set documents. distinct (map fst (metadata doc))"
  shows "\<exists>w' sd mlist.
           build e w store_name documents embeddings = Some (Inr final_name, w')
         \<and> dirs w' final_name = Some sd \<and> metadata_file sd = Some (Dumped mlist)
         \<and> (\<forall>i < length documents. \<forall>x.
               (((''text'', x) \<in> set (mlist ! i)) = (x = PStr (doc_text (documents ! i))))
             \<and> (((''id'', x) \<in> set (mlist ! i)) = (x = PInt (int i))))"
proof -
  from build_success [OF assms(1-9)] obtain w' where
    ok: "build e w store_name documents embeddings = Some (Inr final_name, w')"
    and d: "dirs w' = (dirs w)(final_name \<mapsto>
                 \<lparr>index_faiss = Some \<lparr>dim = d, id_vectors = enumerate 0 embeddings\<rparr>,
                  metadata_file = Some (Dumped (metadata_list documents))\<rparr>)"
    by blast
  let ?sd = "\<lparr>index_faiss = Some \<lparr>dim = d, id_vectors = enumerate 0 embeddings\<rparr>,
              metadata_file = Some (Dumped (metadata_list documents))\<rparr>"
  have "dirs w' final_name = Some ?sd" by (simp add: d)
  moreover have "metadata_file ?sd = Some (Dumped (metadata_list documents))" by simp
  moreover have "\<forall>i < length documents. \<forall>x.
               (((''text'', x) \<in> set (metadata_list documents ! i)) = (x = PStr (doc_text (documents ! i))))
             \<and> (((''id'', x) \<in> set (metadata_list documents ! i)) = (x = PInt (int i)))"
    using assms(10) by (simp add: nth_metadata_list entry_text_values entry_id_values)
  ultimately show ?thesis
    using ok by blast
qed

theorem build_overwrites_text_and_id_witness:
  "\<exists>w' sd mlist.
      build example_env empty_world ''store1'' [doc_a, doc_b] two_vectors = Some (Inr ''store1'', w')
    \<and> dirs w' ''store1'' = Some sd \<and> metadata_file sd = Some (Dumped mlist)
    \<and> (\<forall>i < length [doc_a, doc_b]. \<forall>x.
          (((''text'', x) \<in> set (mlist ! i)) = (x = PStr (doc_text ([doc_a, doc_b] ! i))))
        \<and> (((''id'', x) \<in> set (mlist ! i)) = (x = PInt (int i))))"
proof (rule build_overwrites_text_and_id [where d = 2 and k = 0])
  show "two_vectors \<noteq> []" by (simp add: two_vectors_def)
  show "length [doc_a, doc_b] = length two_vectors" by (simp add: two_vectors_def)
  show "py_len (hd two_vectors) = Inr 2" by (simp add: two_vectors_def)
  show "numpy_faiss_accepts example_env two_vectors" by (simp add: example_env_def)
  show "ensure_unique_path_loop (path_exists empty_world) (random_draw example_env)
           ''store1'' ''store1'' (draws empty_world) = Some (''store1'', 0)"
    by (simp add: ensure_unique_path_loop.simps path_exists_def empty_world_def)
  show "mkdir_succeeds example_env ''store1''" by (simp add: example_env_def)
  show "write_index_succeeds example_env ''store1''" by (simp add: example_env_def)
  show "open_succeeds example_env ''store1''" by (simp add: example_env_def)
  show "\<forall>doc \<in> set [doc_a, doc_b]. json_serializable (PDict (metadata doc))"
    by (simp add: doc_a_def doc_b_def)
  show "\<forall>doc \<in> set [doc_a, doc_b]. distinct (map fst (metadata doc))"
    by (simp add: doc_a_def doc_b_def)
qed

lemma first_build:
  "build example_env empty_world ''store1'' [doc_a, doc_b] two_vectors = Some (Inr ''store1'', world_one)"
  by (simp add: build_def persist_def ensure_unique_path_def ensure_unique_path_loop.simps
        path_exists_def empty_world_def example_env_def two_vectors_def doc_a_def doc_b_def
        metadata_list_def metadata_entry_def enumerate_eq_zip log_event_def mkdir_def put_index_def
        put_metadata_def empty_dir_def world_one_def Let_def upt_rec numeral_2_eq_2)

lemma second_build:
  "build example_env world_one ''store1'' [doc_a] [PList [PInt 5]] = Some (Inr ''store1_ABCD'', world_two)"
  by (simp add: build_def persist_def ensure_unique_path_def ensure_unique_path_loop.simps
        path_exists_def example_env_def doc_a_def random_suffix_def alphabet_def
        metadata_list_def metadata_entry_def enumerate_eq_zip log_event_def mkdir_def put_index_def
        put_metadata_def empty_dir_def world_one_def world_two_def Let_def upt_rec numeral_2_eq_2)

lemma embed_batch_dirs: "embed_batch e cfg w batch = (r, w') \<Longrightarrow> dirs w' = dirs w"
  by (auto simp: embed_batch_def Let_def log_event_def split: option.splits)

lemma embed_batches_dirs:
  "embed_batches e cfg documents starts acc w = (r, w') \<Longrightarrow> dirs w' = dirs w"
proof (induction starts arbitrary: acc w)
  case Nil
  then show ?case by simp
next
  case (Cons start starts)
  obtain r1 w1 where
    b: "embed_batch e cfg w (take (nat (batch_size cfg)) (drop start documents)) = (r1, w1)"
    by (cases "embed_batch e cfg w (take (nat (batch_size cfg)) (drop start documents))")
  have d1: "dirs w1 = dirs w" by (rule embed_batch_dirs [OF b])
  show ?case
  proof (cases r1)
    case (Inl err)
    with Cons.prems b have "w' = w1" by simp
    with d1 show ?thesis by simp
  next
    case (Inr vs)
    with Cons.prems b have "embed_batches e cfg documents starts (acc @ vs) w1 = (r, w')" by simp
    from Cons.IH [OF this] d1 show ?thesis by simp
  qed
qed

lemma embed_documents_dirs: "embed_documents e cfg w texts = (r, w') \<Longrightarrow> dirs w' = dirs w"
  by (auto simp: embed_documents_def embed_batches_dirs split: if_splits sum.splits)

lemma collect_git_dirs: "collect_git e config w = (r, w') \<Longrightarrow> dirs w' = dirs w"
  by (auto simp: collect_git_def log_event_def split: option.splits if_splits)

lemma collect_confluence_dirs: "collect_confluence e config w = (r, w') \<Longrightarrow> dirs w' = dirs w"
  by (auto simp: collect_confluence_def log_event_def split: option.splits if_splits)

lemma collect_documents_dirs:
  assumes "collect_documents e config w = (r, w')"
  shows "dirs w' = dirs w"
proof -
  obtain r1 w1 where g: "collect_git e config w = (r1, w1)" by (cases "collect_git e config w")
  obtain r2 w2 where c: "collect_confluence e config w1 = (r2, w2)"
    by (cases "collect_confluence e config w1")
  have "w' = w \<or> w' = w1 \<or> w' = w2"
    using assms g c
    by (auto simp: collect_documents_def Let_def split: sum.splits if_splits)
  with collect_git_dirs [OF g] collect_confluence_dirs [OF c] show ?thesis by auto
qed

lemma failing_collect:
  "collect_documents env_open_fails example_config empty_world = (Inr [doc_hello], empty_world)"
  by (simp add: collect_documents_def collect_files_def collect_git_def collect_confluence_def
        attach_session_id_def example_config_def example_env_def env_open_fails_def
        get_parser_def suffix_of_def path_components_def lower_def parsers_def doc_hello_def Let_def)

lemma failing_embed:
  "embed_documents env_open_fails (embedding_config example_config) empty_world [''hello''] =
     (Inr [PList [PInt 1, PInt 2]], world_posted)"
  by (simp add: embed_documents_def py_range_def range_from.simps embed_batch_def
        make_payload_def dict_update_def parse_response_def log_event_def world_posted_def
        example_config_def example_env_def env_open_fails_def empty_world_def Let_def)

lemma failing_build:
  "build env_open_fails world_posted ''store1'' [doc_hello] [PList [PInt 1, PInt 2]] =
     Some (Inl OSError, world_partial)"
  by (simp add: build_def persist_def ensure_unique_path_def ensure_unique_path_loop.simps
        path_exists_def example_env_def env_open_fails_def doc_hello_def world_posted_def
        metadata_list_def metadata_entry_def enumerate_eq_zip log_event_def mkdir_def put_index_def
        put_metadata_def empty_dir_def world_partial_def Let_def upt_rec numeral_2_eq_2)

lemma failing_run:
  "run_pipeline env_open_fails example_config empty_world = Some (Inl OSError, world_partial)"
  by (simp add: run_pipeline_def failing_collect)
     (simp add: doc_hello_def failing_embed,
      simp add: failing_build [unfolded doc_hello_def] example_config_def)

text \<open>
  Claim C7 as stated fails: when the metadata file cannot be opened after the index has
  been written, the run fails and the new directory stays, holding the index file alone.
\<close>

theorem failed_run_leaves_partial_store:
  "run_pipeline env_open_fails example_config empty_world = Some (Inl OSError, world_partial)
   \<and> dirs empty_world ''store1'' = None
   \<and> dirs world_partial ''store1'' =
       Some \<lparr>index_faiss = Some \<lparr>dim = 2, id_vectors = [(0, PList [PInt 1, PInt 2])]\<rparr>,
             metadata_file = None\<rparr>
   \<and> \<not> complete_store
         \<lparr>index_faiss = Some \<lparr>dim = 2, id_vectors = [(0, PList [PInt 1, PInt 2])]\<rparr>,
          metadata_file = None\<rparr>"
  by (simp add: failing_run) (simp add: empty_world_def world_partial_def complete_store_def)

section \<open>Embedding client: properties\<close>

lemma parse_item_vector:
  "parse_item item =
     (case item_vector item of Some v \<Rightarrow> Inr v | None \<Rightarrow> Inl ValueError_unexpected_format)"
  by (cases item) (auto simp: item_vector_def split: option.splits)

lemma parse_items_vectors:
  "map item_vector items = map Some vs \<Longrightarrow> parse_items items acc = Inr (acc @ vs)"
proof (induction items arbitrary: vs acc)
  case Nil
  then show ?case by simp
next
  case (Cons item items)
  then obtain v vs' where vs: "vs = v # vs'" "item_vector item = Some v"
    "map item_vector items = map Some vs'"
    by (cases vs) auto
  from Cons.IH [OF vs(3)] vs show ?case by (simp add: parse_item_vector)
qed

lemma accepted_vectors:
  "list_all accepted_shape items \<Longrightarrow> \<exists>vs. map item_vector items = map Some vs"
proof (induction items)
  case Nil
  then show ?case by simp
next
  case (Cons item items)
  then obtain vs v where "map item_vector items = map Some vs" "item_vector item = Some v"
    by (auto simp: accepted_shape_def)
  then have "map item_vector (item # items) = map Some (v # vs)" by simp
  then show ?case by blast
qed

lemma parse_items_rejects:
  "\<not> list_all accepted_shape items \<Longrightarrow> parse_items items acc = Inl ValueError_unexpected_format"
  by (induction items arbitrary: acc)
     (auto simp: parse_item_vector accepted_shape_def split: option.splits)

lemma response_items_Some:
  "response_items data = Some items \<Longrightarrow> get_data data = Inr (PList items)"
  by (cases data) (auto split: option.splits pyval.splits)

lemma parse_response_items:
  "response_items data = Some items \<Longrightarrow>
     parse_response data n =
       (case parse_items items [] of
          Inl err \<Rightarrow> Inl err
        | Inr vs \<Rightarrow> if length vs \<noteq> n then Inl (ValueError_expected_got n (length vs)) else Inr vs)"
  by (simp add: parse_response_def response_items_Some)

lemma well_formed_parse:
  assumes "well_formed_response data n"
  shows "\<exists>vs. parse_response data n = Inr vs \<and> length vs = n"
proof -
  from assms obtain items where d: "response_items data = Some items"
    "length items = n" "list_all accepted_shape items"
    by (auto simp: well_formed_response_def split: option.splits)
  from accepted_vectors [OF d(3)] obtain vs where vs: "map item_vector items = map Some vs"
    by blast
  then have "length vs = length items" using length_map by metis
  with d parse_items_vectors [OF vs, of "[]"] show ?thesis
    by (simp add: parse_response_items)
qed

lemma carries_parse:
  assumes "carries vec data batch"
  shows "parse_response data (length batch) = Inr (map vec batch)"
proof -
  from assms obtain items where d: "response_items data = Some items"
    "map item_vector items = map (\<lambda>t. Some (vec t)) batch"
    by (auto simp: carries_def split: option.splits)
  from d(2) have "map item_vector items = map Some (map vec batch)" by simp
  from parse_items_vectors [OF this, of "[]"] d show ?thesis
    by (simp add: parse_response_items)
qed

lemma concat_range_from:
  "0 < b \<Longrightarrow> n = length xs \<Longrightarrow>
     concat (map (\<lambda>start. take b (drop start xs)) (range_from s n b)) = drop s xs"
proof (induction s n b rule: range_from.induct)
  case (1 start stop step)
  show ?case
  proof (cases "stop \<le> start")
    case True
    with 1 show ?thesis by (simp add: range_from.simps)
  next
    case False
    with 1 have IH: "concat (map (\<lambda>start. take step (drop start xs))
                        (range_from (start + step) stop step)) = drop (start + step) xs"
      by simp
    have d: "take step (drop start xs) @ drop (start + step) xs = drop start xs"
      by (metis append_take_drop_id drop_drop add.commute)
    have rf: "range_from start stop step = start # range_from (start + step) stop step"
      using False 1(2) by (subst range_from.simps) simp
    show ?thesis by (simp only: rf list.map concat.simps IH d)
  qed
qed

lemma embed_batch_carries:
  assumes "http_post e (posts w) (endpoint cfg) (make_payload cfg batch) = Some data"
    and "carries vec data batch"
  shows "\<exists>w'. embed_batch e cfg w batch = (Inr (map vec batch), w')"
  using assms by (simp add: embed_batch_def Let_def carries_parse)

lemma embed_batch_well_formed:
  assumes "http_post e (posts w) (endpoint cfg) (make_payload cfg batch) = Some data"
    and "well_formed_response data (length batch)"
  shows "\<exists>vs w'. embed_batch e cfg w batch = (Inr vs, w') \<and> length vs = length batch"
  using assms well_formed_parse [OF assms(2)] by (auto simp: embed_batch_def Let_def)

lemma embed_batches_carries:
  assumes "\<forall>k batch. \<exists>data. http_post e k (endpoint cfg) (make_payload cfg batch) = Some data
              \<and> carries vec data batch"
  shows "\<exists>w'. embed_batches e cfg texts starts acc w =
           (Inr (acc @ map vec (concat (map (\<lambda>start. take (nat (batch_size cfg)) (drop start texts))
                                          starts))), w')"
proof (induction starts arbitrary: acc w)
  case Nil
  then show ?case by simp
next
  case (Cons start starts)
  let ?batch = "take (nat (batch_size cfg)) (drop start texts)"
  from assms obtain data where
    "http_post e (posts w) (endpoint cfg) (make_payload cfg ?batch) = Some data"
    "carries vec data ?batch"
    by blast
  from embed_batch_carries [OF this] obtain w1 where
    b: "embed_batch e cfg w ?batch = (Inr (map vec ?batch), w1)" by blast
  from Cons.IH [of "acc @ map vec ?batch" w1] b show ?case by simp
qed

lemma embed_batches_well_formed:
  assumes "\<forall>k batch. \<exists>data. http_post e k (endpoint cfg) (make_payload cfg batch) = Some data
              \<and> well_formed_response data (length batch)"
  shows "\<exists>vs w'. embed_batches e cfg texts starts acc w = (Inr (acc @ vs), w')
           \<and> length vs = length (concat (map (\<lambda>start. take (nat (batch_size cfg)) (drop start texts))
                                            starts))"
proof (induction starts arbitrary: acc w)
  case Nil
  then show ?case by simp
next
  case (Cons start starts)
  let ?batch = "take (nat (batch_size cfg)) (drop start texts)"
  from assms obtain data where
    "http_post e (posts w) (endpoint cfg) (make_payload cfg ?batch) = Some data"
    "well_formed_response data (length ?batch)"
    by blast
  from embed_batch_well_formed [OF this] obtain bvs w1 where
    b: "embed_batch e cfg w ?batch = (Inr bvs, w1)" and l: "length bvs = length ?batch" by blast
  from Cons.IH [of "acc @ bvs" w1] obtain vs w' where
    r: "embed_batches e cfg texts starts (acc @ bvs) w1 = (Inr ((acc @ bvs) @ vs), w')"
    and lv: "length vs = length (concat (map (\<lambda>start. take (nat (batch_size cfg)) (drop start texts))
                                            starts))"
    by blast
  have "embed_batches e cfg texts (start # starts) acc w = (Inr (acc @ (bvs @ vs)), w')"
    using b r by simp
  moreover have "length (bvs @ vs) =
      length (concat (map (\<lambda>start. take (nat (batch_size cfg)) (drop start texts)) (start # starts)))"
    using l lv by simp
  ultimately show ?case by blast
qed

text \<open>
  Claim C2. With a positive batch size and a service that answers every request with a
  well-formed response holding one item per input, \<open>embed_documents\<close> returns as many
  vectors as it was given texts; when the item at each position carries the vector of the
  input at that position, the result is the list of the vectors of the texts, in input
  order. On the empty list it returns the empty list and leaves the world as it was: no
  request is made.
\<close>

theorem embed_documents_length_and_order:
  assumes "0 < batch_size cfg"
    and "\<forall>k batch. \<exists>data. http_post e k (endpoint cfg) (make_payload cfg batch) = Some data
              \<and> well_formed_response data (length batch)"
  shows "(\<exists>vs w'. embed_documents e cfg w texts = (Inr vs, w') \<and> length vs = length texts
            \<and> ((\<forall>k batch. \<exists>data. http_post e k (endpoint cfg) (make_payload cfg batch) = Some data
                    \<and> carries vec data batch)
                 \<longrightarrow> vs = map vec texts))
         \<and> embed_documents e cfg w [] = (Inr [], w)"
proof (cases "texts = []")
  case True
  then show ?thesis by (simp add: embed_documents_def)
next
  case False
  let ?b = "nat (batch_size cfg)"
  let ?starts = "range_from 0 (length texts) ?b"
  have r: "py_range (length texts) (batch_size cfg) = Inr ?starts"
    using assms(1) by (simp add: py_range_def)
  have c: "concat (map (\<lambda>start. take ?b (drop start texts)) ?starts) = texts"
    using concat_range_from [of ?b "length texts" texts 0] assms(1) by simp
  from embed_batches_well_formed [OF assms(2), of texts ?starts "[]" w] c
  obtain vs w' where
    ok: "embed_batches e cfg texts ?starts [] w = (Inr vs, w')" and l: "length vs = length texts"
    by auto
  have e: "embed_documents e cfg w texts = (Inr vs, w')"
    using False r ok by (simp add: embed_documents_def)
  have "vs = map vec texts"
    if h: "\<forall>k batch. \<exists>data. http_post e k (endpoint cfg) (make_payload cfg batch) = Some data
                    \<and> carries vec data batch"
  proof -
    from embed_batches_carries [OF h, of texts ?starts "[]" w] c ok show ?thesis by auto
  qed
  with e l show ?thesis by (auto simp: embed_documents_def)
qed

lemma example_post:
  "http_post example_env k (endpoint batch2_config) (make_payload batch2_config batch) =
     Some (PDict [(''data'', PList (map (\<lambda>x. PList [PInt 1, PInt 2]) batch))])"
  by (simp add: example_env_def batch2_config_def make_payload_def dict_update_def comp_def)

lemma example_well_formed:
  "well_formed_response (PDict [(''data'', PList (map (\<lambda>x. PList [PInt 1, PInt 2]) batch))])
     (length batch)"
  by (simp add: well_formed_response_def list.pred_map comp_def accepted_shape_def
        item_vector_def list.pred_True)

lemma example_carries:
  "carries (\<lambda>t. PList [PInt 1, PInt 2])
     (PDict [(''data'', PList (map (\<lambda>x. PList [PInt 1, PInt 2]) batch))]) batch"
  by (simp add: carries_def comp_def item_vector_def)

theorem embed_documents_length_and_order_witness:
  "(\<exists>w'. embed_documents example_env batch2_config empty_world five_texts =
            (Inr (map (\<lambda>t. PList [PInt 1, PInt 2]) five_texts), w'))
   \<and> embed_documents example_env batch2_config empty_world [] = (Inr [], empty_world)"
proof -
  have pos: "0 < batch_size batch2_config" by (simp add: batch2_config_def)
  have wf: "\<forall>k batch. \<exists>data.
      http_post example_env k (endpoint batch2_config) (make_payload batch2_config batch) = Some data
      \<and> well_formed_response data (length batch)"
    using example_post example_well_formed by blast
  have ca: "\<forall>k batch. \<exists>data.
      http_post example_env k (endpoint batch2_config) (make_payload batch2_config batch) = Some data
      \<and> carries (\<lambda>t. PList [PInt 1, PInt 2]) data batch"
    using example_post example_carries by blast
  from embed_documents_length_and_order
         [OF pos wf, of empty_world five_texts "\<lambda>t. PList [PInt 1, PInt 2]"] ca
  show ?thesis by blast
qed



















section \<open>Pipeline: properties\<close>

lemma embed_batch_index_events:
  "embed_batch e cfg w batch = (r, w') \<Longrightarrow> index_events w' = index_events w"
  by (auto simp: embed_batch_def Let_def log_event_def index_events_def split: option.splits)

lemma embed_batches_index_events:
  "embed_batches e cfg documents starts acc w = (r, w') \<Longrightarrow> index_events w' = index_events w"
proof (induction starts arbitrary: acc w)
  case Nil
  then show ?case by simp
next
  case (Cons start starts)
  obtain r1 w1 where
    b: "embed_batch e cfg w (take (nat (batch_size cfg)) (drop start documents)) = (r1, w1)"
    by (cases "embed_batch e cfg w (take (nat (batch_size cfg)) (drop start documents))")
  have d1: "index_events w1 = index_events w" by (rule embed_batch_index_events [OF b])
  show ?case
  proof (cases r1)
    case (Inl err)
    with Cons.prems b have "w' = w1" by simp
    with d1 show ?thesis by simp
  next
    case (Inr vs)
    with Cons.prems b have "embed_batches e cfg documents starts (acc @ vs) w1 = (r, w')" by simp
    from Cons.IH [OF this] d1 show ?thesis by simp
  qed
qed

lemma embed_documents_index_events:
  "embed_documents e cfg w texts = (r, w') \<Longrightarrow> index_events w' = index_events w"
  by (auto simp: embed_documents_def embed_batches_index_events split: if_splits sum.splits)

lemma collect_git_index_events:
  "collect_git e config w = (r, w') \<Longrightarrow> index_events w' = index_events w"
  by (auto simp: collect_git_def log_event_def index_events_def split: option.splits if_splits)

lemma collect_confluence_index_events:
  "collect_confluence e config w = (r, w') \<Longrightarrow> index_events w' = index_events w"
  by (auto simp: collect_confluence_def log_event_def index_events_def
           split: option.splits if_splits)

lemma collect_documents_index_events:
  assumes "collect_documents e config w = (r, w')"
  shows "index_events w' = index_events w"
proof -
  obtain r1 w1 where g: "collect_git e config w = (r1, w1)" by (cases "collect_git e config w")
  obtain r2 w2 where c: "collect_confluence e config w1 = (r2, w2)"
    by (cases "collect_confluence e config w1")
  have "w' = w \<or> w' = w1 \<or> w' = w2"
    using assms g c
    by (auto simp: collect_documents_def Let_def split: sum.splits if_splits)
  with collect_git_index_events [OF g] collect_confluence_index_events [OF c]
  show ?thesis by auto
qed

lemma embed_batches_append:
  "embed_batches e cfg texts (s1 @ s2) acc w =
     (case embed_batches e cfg texts s1 acc w of
        (Inl err, w1) \<Rightarrow> (Inl err, w1)
      | (Inr acc1, w1) \<Rightarrow> embed_batches e cfg texts s2 acc1 w1)"
proof (induction s1 arbitrary: acc w)
  case Nil
  then show ?case by simp
next
  case (Cons start s1)
  obtain r1 w1 where
    b: "embed_batch e cfg w (take (nat (batch_size cfg)) (drop start texts)) = (r1, w1)"
    by (cases "embed_batch e cfg w (take (nat (batch_size cfg)) (drop start texts))")
  show ?case
  proof (cases r1)
    case (Inl err)
    with b show ?thesis by simp
  next
    case (Inr vs)
    with b Cons.IH [of "acc @ vs" w1] show ?thesis by simp
  qed
qed

lemma embed_batch_rejects_shape:
  assumes "http_post e (posts w) (endpoint cfg) (make_payload cfg batch) = Some data"
    and "response_items data = Some items"
    and "\<not> list_all accepted_shape items"
  shows "fst (embed_batch e cfg w batch) = Inl ValueError_unexpected_format"
  using assms
  by (simp add: embed_batch_def Let_def parse_response_items parse_items_rejects)

lemma embed_batch_rejects_count:
  assumes "http_post e (posts w) (endpoint cfg) (make_payload cfg batch) = Some data"
    and "response_items data = Some items"
    and "list_all accepted_shape items"
    and "length items \<noteq> length batch"
  shows "fst (embed_batch e cfg w batch)
           = Inl (ValueError_expected_got (length batch) (length items))"
proof -
  from accepted_vectors [OF assms(3)] obtain vs where
    vs: "map item_vector items = map Some vs" by blast
  then have l: "length vs = length items" using length_map by metis
  from parse_items_vectors [OF vs, of "[]"] have "parse_items items [] = Inr vs" by simp
  with assms l show ?thesis
    by (simp add: embed_batch_def Let_def parse_response_items)
qed

lemma py_range_empty: "py_range 0 b = Inr starts \<Longrightarrow> starts = []"
  by (auto simp: py_range_def range_from.simps split: if_splits)

lemma failing_batch_aborts_run:
  assumes c: "collect_documents e config w = (Inr documents, w1)"
    and r: "py_range (length documents) (batch_size (embedding_config config))
              = Inr (finished @ start # rest)"
    and d: "embed_batches e (embedding_config config) (map doc_text documents) finished [] w1
              = (Inr acc, wk)"
    and f: "fst (embed_batch e (embedding_config config) wk
                   (take (nat (batch_size (embedding_config config)))
                      (drop start (map doc_text documents)))) = Inl err"
  shows "\<exists>w'. run_pipeline e config w = Some (Inl err, w')
           \<and> dirs w' = dirs w \<and> index_events w' = index_events w"
proof -
  let ?cfg = "embedding_config config"
  let ?texts = "map doc_text documents"
  let ?batch = "take (nat (batch_size ?cfg)) (drop start ?texts)"
  obtain w2 where b: "embed_batch e ?cfg wk ?batch = (Inl err, w2)"
    using f by (cases "embed_batch e ?cfg wk ?batch") simp
  have ne: "?texts \<noteq> []"
  proof
    assume "?texts = []"
    then have "length documents = 0" by simp
    with r py_range_empty show False by fastforce
  qed
  have "embed_batches e ?cfg ?texts (finished @ start # rest) [] w1 = (Inl err, w2)"
    using d b by (simp add: embed_batches_append)
  with ne r have m: "embed_documents e ?cfg w1 ?texts = (Inl err, w2)"
    by (simp add: embed_documents_def)
  then have run: "run_pipeline e config w = Some (Inl err, w2)"
    using c by (simp add: run_pipeline_def)
  have "dirs w2 = dirs w"
    using embed_documents_dirs [OF m] collect_documents_dirs [OF c] by simp
  moreover have "index_events w2 = index_events w"
    using embed_documents_index_events [OF m] collect_documents_index_events [OF c] by simp
  ultimately show ?thesis using run by blast
qed

lemma accepted_shape_iff:
  "accepted_shape item =
     ((\<exists>xs. item = PList xs) \<or> (\<exists>d. item = PDict d \<and> ''embedding'' \<in> fst ` set d))"
  by (cases item) (auto simp: accepted_shape_def item_vector_def map_of_eq_None_iff)

lemma short_collect:
  "collect_documents short_env example_config empty_world = (Inr [doc_a, doc_b], empty_world)"
  by (simp add: collect_documents_def collect_files_def collect_git_def collect_confluence_def
        attach_session_id_def example_config_def example_env_def short_env_def
        get_parser_def suffix_of_def path_components_def lower_def parsers_def Let_def)






lemma blank_session_collect:
  "collect_documents example_env blank_session_config empty_world = (Inr [doc_hello], empty_world)"
  by (simp add: collect_documents_def collect_files_def collect_git_def collect_confluence_def
        attach_session_id_def example_config_def example_env_def blank_session_config_def
        get_parser_def suffix_of_def path_components_def lower_def parsers_def doc_hello_def Let_def)

text \<open>
  Claim C9 as stated fails for the empty string: it is a session identifier the
  configuration holds, yet \<open>if config.session_id\<close> is false for it and the collected
  document is returned without a \<open>session_id\<close> field.
\<close>

theorem blank_session_id_not_attached:
  "session_id blank_session_config = Some ''''
   \<and> collect_documents example_env blank_session_config empty_world
       = (Inr [doc_hello], empty_world)
   \<and> map_of (metadata doc_hello) ''session_id'' = None"
  by (simp add: blank_session_collect) (simp add: blank_session_config_def doc_hello_def)

lemma unstamped_update:
  "unstamped_fields (AList.update ''session_id'' v al) = unstamped_fields al"
  by (induction al) (auto simp: unstamped_fields_def)

lemma attach_session_id_nth:
  assumes "sid \<noteq> []" "i < length documents"
  shows "attach_session_id (Some sid) documents ! i
           = (documents ! i)\<lparr>metadata :=
                AList.update ''session_id'' (PStr sid) (metadata (documents ! i))\<rparr>"
  using assms by (simp add: attach_session_id_def)

text \<open>
  Claim C9, as amended. With a non-empty session identifier configured, collection, when
  it finds a document, returns the documents of the three sources in order, each with the
  identifier under \<open>session_id\<close>; the text and every other metadata field of each
  document are what its source produced, in the same order.
\<close>

theorem session_id_attached:
  assumes "session_id config = Some sid" and "sid \<noteq> []"
    and "collect_files e config = Inr docs1"
    and "collect_git e config w = (Inr docs2, w1)"
    and "collect_confluence e config w1 = (Inr docs3, w2)"
    and "docs1 @ docs2 @ docs3 \<noteq> []"
  shows "\<exists>documents.
           collect_documents e config w = (Inr documents, w2)
         \<and> length documents = length (docs1 @ docs2 @ docs3)
         \<and> (\<forall>i < length documents.
               map_of (metadata (documents ! i)) ''session_id'' = Some (PStr sid)
             \<and> doc_text (documents ! i) = doc_text ((docs1 @ docs2 @ docs3) ! i)
             \<and> unstamped_fields (metadata (documents ! i))
                 = unstamped_fields (metadata ((docs1 @ docs2 @ docs3) ! i)))"
proof -
  let ?raw = "docs1 @ docs2 @ docs3"
  let ?docs = "attach_session_id (Some sid) ?raw"
  have c: "collect_documents e config w = (Inr ?docs, w2)"
    using assms by (simp add: collect_documents_def)
  have l: "length ?docs = length ?raw"
    using assms(2) by (simp add: attach_session_id_def)
  have p: "\<forall>i < length ?docs.
               map_of (metadata (?docs ! i)) ''session_id'' = Some (PStr sid)
             \<and> doc_text (?docs ! i) = doc_text (?raw ! i)
             \<and> unstamped_fields (metadata (?docs ! i)) = unstamped_fields (metadata (?raw ! i))"
  proof (intro allI impI)
    fix i assume "i < length ?docs"
    then have i: "i < length ?raw" using l by simp
    show "map_of (metadata (?docs ! i)) ''session_id'' = Some (PStr sid)
             \<and> doc_text (?docs ! i) = doc_text (?raw ! i)
             \<and> unstamped_fields (metadata (?docs ! i)) = unstamped_fields (metadata (?raw ! i))"
      by (simp only: attach_session_id_nth [OF assms(2) i])
         (simp add: update_conv' unstamped_update)
  qed
  from c l p show ?thesis by blast
qed

theorem session_id_attached_witness:
  "\<exists>documents.
      collect_documents example_env session_config empty_world = (Inr documents, empty_world)
    \<and> length documents = length ([doc_hello] @ [] @ [])
    \<and> (\<forall>i < length documents.
          map_of (metadata (documents ! i)) ''session_id'' = Some (PStr ''s1'')
        \<and> doc_text (documents ! i) = doc_text (([doc_hello] @ [] @ []) ! i)
        \<and> unstamped_fields (metadata (documents ! i))
            = unstamped_fields (metadata (([doc_hello] @ [] @ []) ! i)))"
proof (rule session_id_attached)
  show "session_id session_config = Some ''s1''" by (simp add: session_config_def)
  show "''s1'' \<noteq> []" by simp
  show "collect_files example_env session_config = Inr [doc_hello]"
    by (simp add: collect_files_def session_config_def example_config_def example_env_def
          get_parser_def suffix_of_def path_components_def lower_def parsers_def doc_hello_def)
  show "collect_git example_env session_config empty_world = (Inr [], empty_world)"
    by (simp add: collect_git_def session_config_def example_config_def)
  show "collect_confluence example_env session_config empty_world = (Inr [], empty_world)"
    by (simp add: collect_confluence_def session_config_def example_config_def)
  show "[doc_hello] @ [] @ [] \<noteq> []" by simp
qed

section \<open>Store naming: properties\<close>

lemma loop_reaches:
  "\<not> ex (d @ ''_'' @ random_suffix rnd (k + 4 * j) 4) \<Longrightarrow>
     \<exists>r. ensure_unique_path_loop ex rnd d c k = Some r"
proof (induction j arbitrary: c k)
  case 0
  then show ?case
    by (cases "ex c") (simp_all add: ensure_unique_path_loop.simps)
next
  case (Suc j)
  show ?case
  proof (cases "ex c")
    case False
    then show ?thesis by (simp add: ensure_unique_path_loop.simps)
  next
    case True
    from Suc.prems have "\<not> ex (d @ ''_'' @ random_suffix rnd (k + 4 + 4 * j) 4)"
      by (simp add: algebra_simps)
    from Suc.IH [OF this] obtain r where
      "ensure_unique_path_loop ex rnd d (d @ ''_'' @ random_suffix rnd k 4) (k + 4) = Some r"
      by blast
    with True show ?thesis by (subst ensure_unique_path_loop.simps) simp
  qed
qed

lemma split_parts_single: "CHR ''/'' \<notin> set s \<Longrightarrow> split_parts s = [s]"
  by (induction s) auto

lemma components_single: "single_component s \<Longrightarrow> path_components s = [s]"
  by (simp add: single_component_def path_components_def split_parts_single)

lemma not_inside_single: "single_component a \<Longrightarrow> single_component b \<Longrightarrow> \<not> inside a b"
  by (simp add: inside_def components_single)

lemma length_alphabet: "length alphabet = 36"
  by (simp add: alphabet_def)

lemma set_random_suffix: "set (random_suffix rnd k n) \<subseteq> set alphabet"
proof
  fix c assume "c \<in> set (random_suffix rnd k n)"
  then obtain j where "c = alphabet ! (rnd (k + j) mod length alphabet)"
    by (auto simp: random_suffix_def)
  moreover have "rnd (k + j) mod length alphabet < length alphabet"
    by (simp add: length_alphabet)
  ultimately show "c \<in> set alphabet" using nth_mem by blast
qed

lemma slash_not_in_alphabet: "CHR ''/'' \<notin> set alphabet"
  by (simp add: alphabet_def)

lemma length_random_suffix: "length (random_suffix rnd k n) = n"
  by (simp add: random_suffix_def)

lemma single_component_suffixed:
  assumes "single_component s"
  shows "single_component (s @ ''_'' @ random_suffix rnd k 4)"
proof -
  let ?c = "s @ ''_'' @ random_suffix rnd k 4"
  have sl: "CHR ''/'' \<notin> set (random_suffix rnd k 4)"
    using set_random_suffix slash_not_in_alphabet by blast
  have l: "length ?c = length s + 5"
    by (simp add: length_random_suffix)
  have d1: "?c \<noteq> ''.''"
  proof
    assume "?c = ''.''"
    then have "length ?c = 1" by simp
    with l show False by simp
  qed
  have d2: "?c \<noteq> ''..''"
  proof
    assume "?c = ''..''"
    then have "length ?c = 2" by simp
    with l show False by simp
  qed
  from assms sl d1 d2 show ?thesis by (simp add: single_component_def)
qed

lemma persist_other_entries:
  assumes "persist e w s ix ml = Some (r, w')"
  shows "other_entries w' = other_entries w"
proof -
  from assms obtain name k where
    n: "ensure_unique_path e w s = Some (name, w\<lparr>draws := k\<rparr>)"
    by (auto simp: persist_def ensure_unique_path_def split: option.splits)
  from assms show ?thesis
    unfolding persist_def n
    by (auto simp: Let_def log_event_def mkdir_def put_index_def put_metadata_def
             split: if_splits option.splits)
qed

lemma build_other_entries:
  assumes "build e w s docs embs = Some (r, w')"
  shows "other_entries w' = other_entries w"
proof (cases "\<exists>d. persist e (log_event (FaissAddWithIds d (length embs)) w) s
          \<lparr>dim = d, id_vectors = enumerate 0 embs\<rparr> (metadata_list docs) = Some (r, w')")
  case True
  then obtain d where
    "persist e (log_event (FaissAddWithIds d (length embs)) w) s
          \<lparr>dim = d, id_vectors = enumerate 0 embs\<rparr> (metadata_list docs) = Some (r, w')"
    by blast
  from persist_other_entries [OF this] show ?thesis by (simp add: log_event_def)
next
  case False
  with assms have "w' = w"
    by (auto simp: build_def Let_def split: if_splits sum.splits)
  then show ?thesis by simp
qed

lemma build_returns:
  assumes "embeddings \<noteq> []" "length documents = length embeddings"
    and "py_len (hd embeddings) = Inr d"
    and "numpy_faiss_accepts e embeddings"
    and "\<forall>doc \<in> set documents. json_serializable (PDict (metadata doc))"
    and io: "\<forall>name. mkdir_succeeds e name \<and> write_index_succeeds e name \<and> open_succeeds e name"
    and free: "\<not> path_exists w (store_name @ ''_'' @ random_suffix (random_draw e) (draws w + 4 * j) 4)"
  shows "\<exists>name w'. build e w store_name documents embeddings = Some (Inr name, w')"
proof -
  from loop_reaches [where ex = "path_exists w" and rnd = "random_draw e" and d = store_name
      and k = "draws w" and j = j and c = store_name, OF free] obtain r where
    "ensure_unique_path_loop (path_exists w) (random_draw e) store_name store_name (draws w) = Some r"
    by blast
  then have l: "ensure_unique_path_loop (path_exists w) (random_draw e) store_name store_name (draws w)
                  = Some (fst r, snd r)" by simp
  from io have "mkdir_succeeds e (fst r)" "write_index_succeeds e (fst r)" "open_succeeds e (fst r)"
    by simp_all
  from build_success [OF assms(1-4) l this assms(5)] show ?thesis by blast
qed

lemma nested_first_build:
  "build example_env empty_world ''store1/'' [doc_a, doc_b] two_vectors = Some (Inr ''store1/'', world_nested_one)"
  by (simp add: build_def persist_def ensure_unique_path_def ensure_unique_path_loop.simps
        path_exists_def empty_world_def example_env_def two_vectors_def doc_a_def doc_b_def
        metadata_list_def metadata_entry_def enumerate_eq_zip log_event_def mkdir_def put_index_def
        put_metadata_def empty_dir_def world_nested_one_def Let_def upt_rec numeral_2_eq_2)

lemma nested_second_build:
  "build example_env world_nested_one ''store1/'' [doc_a] [PList [PInt 5]] = Some (Inr ''store1/_ABCD'', world_nested_two)"
  by (simp add: build_def persist_def ensure_unique_path_def ensure_unique_path_loop.simps
        path_exists_def example_env_def doc_a_def random_suffix_def alphabet_def
        metadata_list_def metadata_entry_def enumerate_eq_zip log_event_def mkdir_def put_index_def
        put_metadata_def empty_dir_def world_nested_one_def world_nested_two_def Let_def upt_rec numeral_2_eq_2)

lemma nested_components:
  "path_components ''store1/'' = [''store1'']"
  "path_components ''store1/_ABCD'' = [''store1'', ''_ABCD'']"
  by (simp_all add: path_components_def)

lemma build_path_exists:
  assumes "build e w s docs embs = Some (Inr name, w')"
  shows "path_exists w' c = (path_exists w c \<or> c = name)"
proof -
  from build_Inr [OF assms] obtain ix where
    "dirs w' = (dirs w)(name \<mapsto>
       \<lparr>index_faiss = Some ix, metadata_file = Some (Dumped (metadata_list docs))\<rparr>)"
    by blast
  with build_other_entries [OF assms] show ?thesis
    by (auto simp: path_exists_def)
qed

text \<open>
  Claim C6, amended. The requested name is a single path component, both builds are
  given non-empty, equally long, convertible inputs, the file system cooperates, and from
  every position the random source eventually yields a suffix whose candidate is unused
  and differs from any one given name. Then both builds return. The name each returns
  does not exist when it is checked; the first is the requested name when that is unused
  and the requested name with an underscore and four random characters otherwise, the
  second always has that suffixed form. The two names differ, each is a single path
  component, so neither directory lies inside the other, and the directory of the first
  build is there, complete and unchanged, after the second.
\<close>

theorem successive_builds_distinct_names:
  assumes name: "single_component store_name"
    and first: "embeddings \<noteq> []" "length documents = length embeddings"
      "py_len (hd embeddings) = Inr d" "numpy_faiss_accepts e embeddings"
      "\<forall>doc \<in> set documents. json_serializable (PDict (metadata doc))"
    and second: "embeddings' \<noteq> []" "length documents' = length embeddings'"
      "py_len (hd embeddings') = Inr d'" "numpy_faiss_accepts e embeddings'"
      "\<forall>doc \<in> set documents'. json_serializable (PDict (metadata doc))"
    and io: "\<forall>name. mkdir_succeeds e name \<and> write_index_succeeds e name \<and> open_succeeds e name"
    and rnd: "\<forall>k other. \<exists>j.
        \<not> path_exists w (store_name @ ''_'' @ random_suffix (random_draw e) (k + 4 * j) 4)
        \<and> store_name @ ''_'' @ random_suffix (random_draw e) (k + 4 * j) 4 \<noteq> other"
  shows "\<exists>name1 w1 name2 w2.
         build e w store_name documents embeddings = Some (Inr name1, w1)
       \<and> build e w1 store_name documents' embeddings' = Some (Inr name2, w2)
       \<and> name1 \<noteq> name2
       \<and> \<not> path_exists w name1 \<and> \<not> path_exists w1 name2
       \<and> (\<not> path_exists w store_name \<longrightarrow> name1 = store_name)
       \<and> (path_exists w store_name \<longrightarrow>
            (\<exists>j. name1 = store_name @ ''_'' @ random_suffix (random_draw e) j 4))
       \<and> (\<exists>j. name2 = store_name @ ''_'' @ random_suffix (random_draw e) j 4)
       \<and> single_component name1 \<and> single_component name2
       \<and> \<not> inside name1 name2 \<and> \<not> inside name2 name1
       \<and> (\<exists>sd. dirs w1 name1 = Some sd \<and> complete_store sd \<and> dirs w2 name1 = Some sd)"
proof -
  from rnd obtain j where
    "\<not> path_exists w (store_name @ ''_'' @ random_suffix (random_draw e) (draws w + 4 * j) 4)"
    by blast
  from build_returns [OF first io this] obtain name1 w1 where
    b1: "build e w store_name documents embeddings = Some (Inr name1, w1)" by blast
  from build_Inr [OF b1] obtain k1 ix1 where
    l1: "ensure_unique_path_loop (path_exists w) (random_draw e) store_name store_name (draws w)
           = Some (name1, k1)"
    and d1: "dirs w1 = (dirs w)(name1 \<mapsto>
                \<lparr>index_faiss = Some ix1, metadata_file = Some (Dumped (metadata_list documents))\<rparr>)"
    by blast
  have f1: "\<not> path_exists w name1" using loop_fresh [OF l1] by simp
  have pe1: "\<And>c. path_exists w1 c = (path_exists w c \<or> c = name1)"
    by (rule build_path_exists [OF b1])
  from rnd obtain j' where
    "\<not> path_exists w (store_name @ ''_'' @ random_suffix (random_draw e) (draws w1 + 4 * j') 4)
     \<and> store_name @ ''_'' @ random_suffix (random_draw e) (draws w1 + 4 * j') 4 \<noteq> name1"
    by blast
  then have
    "\<not> path_exists w1 (store_name @ ''_'' @ random_suffix (random_draw e) (draws w1 + 4 * j') 4)"
    by (simp add: pe1)
  from build_returns [OF second io this] obtain name2 w2 where
    b2: "build e w1 store_name documents' embeddings' = Some (Inr name2, w2)" by blast
  from build_Inr [OF b2] obtain k2 ix2 where
    l2: "ensure_unique_path_loop (path_exists w1) (random_draw e) store_name store_name (draws w1)
           = Some (name2, k2)"
    and d2: "dirs w2 = (dirs w1)(name2 \<mapsto>
                \<lparr>index_faiss = Some ix2, metadata_file = Some (Dumped (metadata_list documents'))\<rparr>)"
    by blast
  have f2: "\<not> path_exists w1 name2" using loop_fresh [OF l2] by simp
  have ne: "name1 \<noteq> name2" using f2 pe1 by auto
  have s1: "name1 = store_name \<or> (\<exists>j. name1 = store_name @ ''_'' @ random_suffix (random_draw e) j 4)"
    using loop_shape [OF l1] by simp
  have s2: "name2 = store_name \<or> (\<exists>j. name2 = store_name @ ''_'' @ random_suffix (random_draw e) j 4)"
    using loop_shape [OF l2] by simp
  have u1: "\<not> path_exists w store_name \<longrightarrow> name1 = store_name"
    using l1 by (auto simp: loop_unused)
  have t1: "path_exists w store_name \<longrightarrow>
            (\<exists>j. name1 = store_name @ ''_'' @ random_suffix (random_draw e) j 4)"
    using s1 f1 by auto
  have ex1: "path_exists w1 store_name" using u1 by (auto simp: pe1)
  have t2: "\<exists>j. name2 = store_name @ ''_'' @ random_suffix (random_draw e) j 4"
    using s2 f2 ex1 by auto
  have c1: "single_component name1"
    using s1 single_component_suffixed [OF name] name by blast
  have c2: "single_component name2"
    using t2 single_component_suffixed [OF name] by blast
  have i12: "\<not> inside name1 name2" by (rule not_inside_single [OF c1 c2])
  have i21: "\<not> inside name2 name1" by (rule not_inside_single [OF c2 c1])
  let ?sd = "\<lparr>index_faiss = Some ix1, metadata_file = Some (Dumped (metadata_list documents))\<rparr>"
  have "dirs w1 name1 = Some ?sd" using d1 by simp
  moreover have "complete_store ?sd" by (simp add: complete_store_def)
  moreover have "dirs w2 name1 = Some ?sd" using d1 d2 ne by simp
  ultimately have keep: "\<exists>sd. dirs w1 name1 = Some sd \<and> complete_store sd \<and> dirs w2 name1 = Some sd"
    by blast
  from b1 b2 ne f1 f2 u1 t1 t2 c1 c2 i12 i21 keep show ?thesis by blast
qed

text \<open>
  Claim C6 as stated, for every requested store name, fails for a name that ends in a
  directory separator. Both builds with the requested name \<open>store1/\<close> succeed; the first
  returns \<open>store1/\<close>, whose path is the directory \<open>store1\<close>, and the second returns
  \<open>store1/_ABCD\<close>: its directory \<open>_ABCD\<close> is created inside the directory of the first
  build, which is therefore not left untouched.
\<close>

theorem nested_store_directory:
  "build example_env empty_world ''store1/'' [doc_a, doc_b] two_vectors
     = Some (Inr ''store1/'', world_nested_one)
   \<and> build example_env world_nested_one ''store1/'' [doc_a] [PList [PInt 5]]
     = Some (Inr ''store1/_ABCD'', world_nested_two)
   \<and> path_components ''store1/'' = [''store1'']
   \<and> path_components ''store1/_ABCD'' = [''store1'', ''_ABCD'']
   \<and> inside ''store1/'' ''store1/_ABCD''"
  by (simp add: nested_first_build nested_second_build nested_components inside_def)

lemma distinct_alphabet: "distinct alphabet"
  by (simp add: alphabet_def)

lemma hd_random_suffix: "hd (random_suffix rnd k 4) = alphabet ! (rnd k mod length alphabet)"
  by (simp add: random_suffix_def upt_rec)

lemma shift_mod: "(k::nat) mod 36 \<noteq> (k + 4) mod 36"
proof -
  have "k + 4 = Suc (Suc (Suc (Suc k)))" by simp
  then show ?thesis by (simp only: mod_Suc split: if_splits) auto
qed

lemma example_suffix_changes:
  "random_suffix (random_draw example_env) k 4 \<noteq> random_suffix (random_draw example_env) (k + 4) 4"
proof
  assume "random_suffix (random_draw example_env) k 4 = random_suffix (random_draw example_env) (k + 4) 4"
  then have "hd (random_suffix (random_draw example_env) k 4)
           = hd (random_suffix (random_draw example_env) (k + 4) 4)" by simp
  then have "alphabet ! (k mod 36) = alphabet ! ((k + 4) mod 36)"
    by (simp add: hd_random_suffix example_env_def length_alphabet)
  moreover have "k mod 36 < length alphabet" "(k + 4) mod 36 < length alphabet"
    by (simp_all add: length_alphabet)
  ultimately have "k mod 36 = (k + 4) mod 36"
    using distinct_alphabet by (simp only: nth_eq_iff_index_eq)
  then show False using shift_mod by blast
qed

lemma example_random_source:
  "\<forall>k other. \<exists>j.
        \<not> path_exists empty_world (''store1'' @ ''_'' @ random_suffix (random_draw example_env) (k + 4 * j) 4)
        \<and> ''store1'' @ ''_'' @ random_suffix (random_draw example_env) (k + 4 * j) 4 \<noteq> other"
proof (intro allI)
  fix k :: nat and other :: string
  let ?c = "\<lambda>j. ''store1'' @ ''_'' @ random_suffix (random_draw example_env) (k + 4 * j) 4"
  have free: "\<And>j. \<not> path_exists empty_world (?c j)"
    by (simp add: path_exists_def empty_world_def)
  have "?c 0 \<noteq> ?c 1" using example_suffix_changes [of k] by simp
  then have "?c 0 \<noteq> other \<or> ?c 1 \<noteq> other" by auto
  with free show "\<exists>j. \<not> path_exists empty_world (?c j) \<and> ?c j \<noteq> other" by blast
qed

text \<open>
  The amended claim C6 on two builds that request \<open>store1\<close> in an empty base directory:
  they return \<open>store1\<close> and \<open>store1_ABCD\<close>.
\<close>

theorem successive_builds_distinct_names_witness:
  "build example_env empty_world ''store1'' [doc_a, doc_b] two_vectors
     = Some (Inr ''store1'', world_one)
   \<and> build example_env world_one ''store1'' [doc_a] [PList [PInt 5]]
     = Some (Inr ''store1_ABCD'', world_two)
   \<and> ''store1'' \<noteq> ''store1_ABCD''
   \<and> \<not> path_exists empty_world ''store1'' \<and> \<not> path_exists world_one ''store1_ABCD''
   \<and> (\<exists>j. ''store1_ABCD'' = ''store1'' @ ''_'' @ random_suffix (random_draw example_env) j 4)
   \<and> single_component ''store1'' \<and> single_component ''store1_ABCD''
   \<and> \<not> inside ''store1'' ''store1_ABCD'' \<and> \<not> inside ''store1_ABCD'' ''store1''
   \<and> (\<exists>sd. dirs world_one ''store1'' = Some sd \<and> complete_store sd
            \<and> dirs world_two ''store1'' = Some sd)"
proof -
  have name: "single_component ''store1''" by (simp add: single_component_def)
  have first: "two_vectors \<noteq> []" "length [doc_a, doc_b] = length two_vectors"
    "py_len (hd two_vectors) = Inr 2" "numpy_faiss_accepts example_env two_vectors"
    "\<forall>doc \<in> set [doc_a, doc_b]. json_serializable (PDict (metadata doc))"
    by (simp_all add: two_vectors_def example_env_def doc_a_def doc_b_def)
  have second: "[PList [PInt 5]] \<noteq> []" "length [doc_a] = length [PList [PInt 5]]"
    "py_len (hd [PList [PInt 5]]) = Inr 1" "numpy_faiss_accepts example_env [PList [PInt 5]]"
    "\<forall>doc \<in> set [doc_a]. json_serializable (PDict (metadata doc))"
    by (simp_all add: example_env_def doc_a_def)
  have io: "\<forall>name. mkdir_succeeds example_env name \<and> write_index_succeeds example_env name
              \<and> open_succeeds example_env name"
    by (simp add: example_env_def)
  from successive_builds_distinct_names [OF name first second io example_random_source]
  obtain name1 w1 name2 w2 where
    r: "build example_env empty_world ''store1'' [doc_a, doc_b] two_vectors = Some (Inr name1, w1)"
       "build example_env w1 ''store1'' [doc_a] [PList [PInt 5]] = Some (Inr name2, w2)"
       "name1 \<noteq> name2" "\<not> path_exists empty_world name1" "\<not> path_exists w1 name2"
       "\<exists>j. name2 = ''store1'' @ ''_'' @ random_suffix (random_draw example_env) j 4"
       "single_component name1" "single_component name2"
       "\<not> inside name1 name2" "\<not> inside name2 name1"
       "\<exists>sd. dirs w1 name1 = Some sd \<and> complete_store sd \<and> dirs w2 name1 = Some sd"
    by blast
  from r(1) have 1: "name1 = ''store1''" "w1 = world_one" by (simp_all add: first_build)
  from r(2) have 2: "name2 = ''store1_ABCD''" "w2 = world_two"
    by (simp_all add: 1 second_build)
  from r show ?thesis unfolding 1 2 by blast
qed

section \<open>Response parsing: properties\<close>

lemma claimed_accepted: "claimed_shape item \<Longrightarrow> accepted_shape item"
  by (cases item) (auto simp: accepted_shape_def item_vector_def split: option.splits)

lemma parse_response_iterated:
  assumes "get_data data = Inr v" "iterate v = Inr items"
  shows "parse_response data n =
     (case parse_items items [] of
        Inl err \<Rightarrow> Inl err
      | Inr batch_embeddings \<Rightarrow>
          if length batch_embeddings \<noteq> n
          then Inl (ValueError_expected_got n (length batch_embeddings))
          else Inr batch_embeddings)"
  using assms by (simp add: parse_response_def)

lemma embed_batch_rejects_item:
  assumes "http_post e (posts w) (endpoint cfg) (make_payload cfg batch) = Some data"
    and "get_data data = Inr v" "iterate v = Inr items"
    and "\<not> list_all accepted_shape items"
  shows "fst (embed_batch e cfg w batch) = Inl ValueError_unexpected_format"
  using assms
  by (simp add: embed_batch_def Let_def parse_response_iterated parse_items_rejects)

lemma embed_batch_rejects_number:
  assumes "http_post e (posts w) (endpoint cfg) (make_payload cfg batch) = Some data"
    and "get_data data = Inr v" "iterate v = Inr items"
    and "list_all accepted_shape items"
    and "length items \<noteq> length batch"
  shows "fst (embed_batch e cfg w batch)
           = Inl (ValueError_expected_got (length batch) (length items))"
proof -
  from accepted_vectors [OF assms(4)] obtain vs where
    vs: "map item_vector items = map Some vs" by blast
  then have "length (map item_vector items) = length (map Some vs)" by simp
  then have l: "length vs = length items" by simp
  from parse_items_vectors [OF vs, of "[]"] have "parse_items items [] = Inr vs" by simp
  with assms l show ?thesis
    by (simp add: embed_batch_def Let_def parse_response_iterated)
qed

text \<open>
  Claim C5, amended. The client accepts an item exactly when it is a list or a dict with
  the key \<open>embedding\<close>, which includes the two shapes of the specification, and raises the
  unexpected-format ValueError on every other item. For any batch of a run whose response
  is a dict with an iterable \<open>data\<close> value (the empty list when the key is absent): when
  some item is not accepted the run fails with the unexpected-format ValueError, and when
  all items are accepted but their number differs from the number of texts of the batch
  it fails with the expected-got ValueError. In both cases the run ends there: the base
  directory is as it was and no index was built.
\<close>

theorem malformed_response_aborts_run:
  assumes "collect_documents e config w = (Inr documents, w1)"
    and "py_range (length documents) (batch_size (embedding_config config))
           = Inr (finished @ start # rest)"
    and "embed_batches e (embedding_config config) (map doc_text documents) finished [] w1
           = (Inr acc, wk)"
    and "batch = take (nat (batch_size (embedding_config config)))
                   (drop start (map doc_text documents))"
    and "http_post e (posts wk) (endpoint (embedding_config config))
           (make_payload (embedding_config config) batch) = Some data"
    and "get_data data = Inr v"
    and "iterate v = Inr items"
  shows "(\<forall>item. accepted_shape item =
            ((\<exists>xs. item = PList xs) \<or> (\<exists>d. item = PDict d \<and> ''embedding'' \<in> fst ` set d)))
       \<and> (\<forall>item. claimed_shape item \<longrightarrow> accepted_shape item)
       \<and> (\<forall>item. (accepted_shape item \<longrightarrow> (\<exists>v. parse_item item = Inr v))
                \<and> (\<not> accepted_shape item \<longrightarrow> parse_item item = Inl ValueError_unexpected_format))
       \<and> (\<not> list_all accepted_shape items \<longrightarrow>
            (\<exists>w'. run_pipeline e config w = Some (Inl ValueError_unexpected_format, w')
                  \<and> dirs w' = dirs w \<and> index_events w' = index_events w))
       \<and> (list_all accepted_shape items \<and> length items \<noteq> length batch \<longrightarrow>
            (\<exists>w'. run_pipeline e config w
                     = Some (Inl (ValueError_expected_got (length batch) (length items)), w')
                  \<and> dirs w' = dirs w \<and> index_events w' = index_events w))"
proof -
  have s1: "\<forall>item. accepted_shape item =
            ((\<exists>xs. item = PList xs) \<or> (\<exists>d. item = PDict d \<and> ''embedding'' \<in> fst ` set d))"
    using accepted_shape_iff by blast
  have s0: "\<forall>item. claimed_shape item \<longrightarrow> accepted_shape item"
    using claimed_accepted by blast
  have s2: "\<forall>item. (accepted_shape item \<longrightarrow> (\<exists>v. parse_item item = Inr v))
                \<and> (\<not> accepted_shape item \<longrightarrow> parse_item item = Inl ValueError_unexpected_format)"
    by (auto simp: parse_item_vector accepted_shape_def split: option.splits)
  have s3: "\<exists>w'. run_pipeline e config w = Some (Inl ValueError_unexpected_format, w')
                  \<and> dirs w' = dirs w \<and> index_events w' = index_events w"
    if "\<not> list_all accepted_shape items"
    using failing_batch_aborts_run [OF assms(1-3)]
      embed_batch_rejects_item [OF assms(5,6,7) that] assms(4) by simp
  have s4: "\<exists>w'. run_pipeline e config w
                     = Some (Inl (ValueError_expected_got (length batch) (length items)), w')
                  \<and> dirs w' = dirs w \<and> index_events w' = index_events w"
    if "list_all accepted_shape items" "length items \<noteq> length batch"
    using failing_batch_aborts_run [OF assms(1-3)]
      embed_batch_rejects_number [OF assms(5,6,7) that] assms(4) by simp
  from s0 s1 s2 s3 s4 show ?thesis by blast
qed

lemma string_collect:
  "collect_documents string_env example_config empty_world = (Inr [doc_a, doc_b], empty_world)"
  by (simp add: collect_documents_def collect_files_def collect_git_def collect_confluence_def
        attach_session_id_def example_config_def example_env_def short_env_def string_env_def
        get_parser_def suffix_of_def path_components_def lower_def parsers_def Let_def)

text \<open>
  The amended claim C5 on a service that returns one vector for two texts, and on one
  whose \<open>data\<close> field is the string \<open>ab\<close>, iterated as the items \<open>a\<close> and \<open>b\<close>.
\<close>

theorem malformed_response_aborts_run_witness:
  "(\<exists>w'. run_pipeline short_env example_config empty_world
            = Some (Inl (ValueError_expected_got 2 1), w')
        \<and> dirs w' = dirs empty_world \<and> index_events w' = index_events empty_world)
   \<and> (\<exists>w'. run_pipeline string_env example_config empty_world
            = Some (Inl ValueError_unexpected_format, w')
        \<and> dirs w' = dirs empty_world \<and> index_events w' = index_events empty_world)"
proof -
  let ?cfg = "embedding_config example_config"
  have r: "py_range (length [doc_a, doc_b]) (batch_size ?cfg) = Inr ([] @ 0 # [])"
    by (simp add: py_range_def example_config_def range_from.simps)
  have b: "[''alpha'', ''beta''] = take (nat (batch_size ?cfg)) (drop 0 (map doc_text [doc_a, doc_b]))"
    by (simp add: example_config_def doc_a_def doc_b_def)
  have d: "embed_batches short_env ?cfg (map doc_text [doc_a, doc_b]) [] [] empty_world
             = (Inr [], empty_world)" by simp
  have p: "http_post short_env (posts empty_world) (endpoint ?cfg)
             (make_payload ?cfg [''alpha'', ''beta''])
           = Some (PDict [(''data'', PList [PList [PInt 1, PInt 2]])])"
    by (simp add: short_env_def)
  have g: "get_data (PDict [(''data'', PList [PList [PInt 1, PInt 2]])])
             = Inr (PList [PList [PInt 1, PInt 2]])" by simp
  have i: "iterate (PList [PList [PInt 1, PInt 2]]) = Inr [PList [PInt 1, PInt 2]]" by simp
  have a: "list_all accepted_shape [PList [PInt 1, PInt 2]]"
    by (simp add: accepted_shape_def item_vector_def)
  have l: "length [PList [PInt 1, PInt 2]] \<noteq> length [''alpha'', ''beta'']" by simp
  from malformed_response_aborts_run [OF short_collect r d b p g i] a l
  have "\<exists>w'. run_pipeline short_env example_config empty_world
            = Some (Inl (ValueError_expected_got (length [''alpha'', ''beta''])
                           (length [PList [PInt 1, PInt 2]])), w')
        \<and> dirs w' = dirs empty_world \<and> index_events w' = index_events empty_world"
    by blast
  then have count: "\<exists>w'. run_pipeline short_env example_config empty_world
            = Some (Inl (ValueError_expected_got 2 1), w')
        \<and> dirs w' = dirs empty_world \<and> index_events w' = index_events empty_world"
    by (simp add: numeral_2_eq_2)
  have d': "embed_batches string_env ?cfg (map doc_text [doc_a, doc_b]) [] [] empty_world
             = (Inr [], empty_world)" by simp
  have p': "http_post string_env (posts empty_world) (endpoint ?cfg)
             (make_payload ?cfg [''alpha'', ''beta''])
           = Some (PDict [(''data'', PStr ''ab'')])"
    by (simp add: string_env_def)
  have g': "get_data (PDict [(''data'', PStr ''ab'')]) = Inr (PStr ''ab'')" by simp
  have i': "iterate (PStr ''ab'') = Inr [PStr ''a'', PStr ''b'']" by simp
  have a': "\<not> list_all accepted_shape [PStr ''a'', PStr ''b'']"
    by (simp add: accepted_shape_def item_vector_def)
  from malformed_response_aborts_run [OF string_collect r d' b p' g' i'] a'
  have "\<exists>w'. run_pipeline string_env example_config empty_world
            = Some (Inl ValueError_unexpected_format, w')
        \<and> dirs w' = dirs empty_world \<and> index_events w' = index_events empty_world"
    by blast
  with count show ?thesis by blast
qed

text \<open>
  Claim C5 as stated fails: items that are neither a numeric vector nor an object
  carrying one are accepted. A list of a string and an object whose \<open>embedding\<close> field is
  the number 5 are parsed without error, and \<open>embed_documents\<close> returns them as the
  embeddings of the two texts.
\<close>

theorem non_numeric_items_accepted:
  "\<not> claimed_shape (PList [PStr ''x''])
   \<and> \<not> claimed_shape (PDict [(''embedding'', PInt 5)])
   \<and> parse_item (PList [PStr ''x'']) = Inr (PList [PStr ''x''])
   \<and> parse_item (PDict [(''embedding'', PInt 5)]) = Inr (PInt 5)
   \<and> fst (embed_documents text_env (embedding_config example_config) empty_world
            [''alpha'', ''beta''])
       = Inr [PList [PStr ''x''], PInt 5]"
  by (simp add: embed_documents_def py_range_def example_config_def range_from.simps
        embed_batch_def parse_response_def text_env_def short_env_def Let_def)

section \<open>Failed runs: properties\<close>

lemma embed_batch_frame:
  "embed_batch e cfg w batch = (r, w') \<Longrightarrow>
     dirs w' = dirs w \<and> other_entries w' = other_entries w \<and> build_steps w' = build_steps w"
  by (auto simp: embed_batch_def Let_def log_event_def build_steps_def split: option.splits)

lemma embed_batches_frame:
  "embed_batches e cfg documents starts acc w = (r, w') \<Longrightarrow>
     dirs w' = dirs w \<and> other_entries w' = other_entries w \<and> build_steps w' = build_steps w"
proof (induction starts arbitrary: acc w)
  case Nil
  then show ?case by simp
next
  case (Cons start starts)
  obtain r1 w1 where
    b: "embed_batch e cfg w (take (nat (batch_size cfg)) (drop start documents)) = (r1, w1)"
    by (cases "embed_batch e cfg w (take (nat (batch_size cfg)) (drop start documents))")
  have d1: "dirs w1 = dirs w \<and> other_entries w1 = other_entries w \<and> build_steps w1 = build_steps w"
    by (rule embed_batch_frame [OF b])
  show ?case
  proof (cases r1)
    case (Inl err)
    with Cons.prems b have "w' = w1" by simp
    with d1 show ?thesis by simp
  next
    case (Inr vs)
    with Cons.prems b have "embed_batches e cfg documents starts (acc @ vs) w1 = (r, w')" by simp
    from Cons.IH [OF this] d1 show ?thesis by simp
  qed
qed

lemma embed_documents_frame:
  "embed_documents e cfg w texts = (r, w') \<Longrightarrow>
     dirs w' = dirs w \<and> other_entries w' = other_entries w \<and> build_steps w' = build_steps w"
  by (auto simp: embed_documents_def dest: embed_batches_frame split: if_splits sum.splits)

lemma collect_git_frame:
  "collect_git e config w = (r, w') \<Longrightarrow>
     dirs w' = dirs w \<and> other_entries w' = other_entries w \<and> build_steps w' = build_steps w"
  by (auto simp: collect_git_def log_event_def build_steps_def split: option.splits if_splits)

lemma collect_confluence_frame:
  "collect_confluence e config w = (r, w') \<Longrightarrow>
     dirs w' = dirs w \<and> other_entries w' = other_entries w \<and> build_steps w' = build_steps w"
  by (auto simp: collect_confluence_def log_event_def build_steps_def
           split: option.splits if_splits)

lemma collect_documents_frame:
  assumes "collect_documents e config w = (r, w')"
  shows "dirs w' = dirs w \<and> other_entries w' = other_entries w \<and> build_steps w' = build_steps w"
proof -
  obtain r1 w1 where g: "collect_git e config w = (r1, w1)" by (cases "collect_git e config w")
  obtain r2 w2 where c: "collect_confluence e config w1 = (r2, w2)"
    by (cases "collect_confluence e config w1")
  have "w' = w \<or> w' = w1 \<or> w' = w2"
    using assms g c
    by (auto simp: collect_documents_def Let_def split: sum.splits if_splits)
  with collect_git_frame [OF g] collect_confluence_frame [OF c]
  show ?thesis by auto
qed

lemma persist_stages:
  assumes "persist e w s ix ml = Some (Inl err, w')"
  shows "\<exists>name. \<not> path_exists w name \<and>
          (build_steps w' = build_steps w @ [Mkdir name]
             \<and> \<not> mkdir_succeeds e name \<and> dirs w' = dirs w
         \<or> build_steps w' = build_steps w @ [Mkdir name, WriteIndex name]
             \<and> \<not> write_index_succeeds e name \<and> dirs w' = (dirs w)(name \<mapsto> empty_dir)
         \<or> build_steps w' = build_steps w @ [Mkdir name, WriteIndex name, OpenMetadata name]
             \<and> (\<not> open_succeeds e name
                  \<and> dirs w' = (dirs w)(name \<mapsto> \<lparr>index_faiss = Some ix, metadata_file = None\<rparr>)
                \<or> open_succeeds e name
                  \<and> dirs w' = (dirs w)(name \<mapsto>
                       \<lparr>index_faiss = Some ix, metadata_file = Some Incomplete\<rparr>)))"
proof -
  from assms obtain name k where
    loop: "ensure_unique_path_loop (path_exists w) (random_draw e) s s (draws w) = Some (name, k)"
    by (auto simp: persist_def ensure_unique_path_def split: option.splits)
  have fresh: "\<not> path_exists w name" using loop_fresh [OF loop] by simp
  then have none: "dirs w name = None" by (simp add: path_exists_def)
  have name: "ensure_unique_path e w s = Some (name, w\<lparr>draws := k\<rparr>)"
    by (simp add: ensure_unique_path_def loop)
  from assms have
    "build_steps w' = build_steps w @ [Mkdir name]
             \<and> \<not> mkdir_succeeds e name \<and> dirs w' = dirs w
         \<or> build_steps w' = build_steps w @ [Mkdir name, WriteIndex name]
             \<and> \<not> write_index_succeeds e name \<and> dirs w' = (dirs w)(name \<mapsto> empty_dir)
         \<or> build_steps w' = build_steps w @ [Mkdir name, WriteIndex name, OpenMetadata name]
             \<and> (\<not> open_succeeds e name
                  \<and> dirs w' = (dirs w)(name \<mapsto> \<lparr>index_faiss = Some ix, metadata_file = None\<rparr>)
                \<or> open_succeeds e name
                  \<and> dirs w' = (dirs w)(name \<mapsto>
                       \<lparr>index_faiss = Some ix, metadata_file = Some Incomplete\<rparr>))"
    unfolding persist_def name
    using none
    by (auto simp: Let_def log_event_def mkdir_def put_index_def put_metadata_def empty_dir_def
                   build_steps_def
             split: if_splits)
  with fresh show ?thesis by blast
qed

lemma build_stages:
  assumes "build e w s docs embs = Some (Inl err, w')"
  shows "build_steps w' = build_steps w \<and> dirs w' = dirs w
       \<or> (\<exists>d name. \<not> path_exists w name \<and>
          (build_steps w' = build_steps w @ [FaissAddWithIds d (length embs), Mkdir name]
             \<and> \<not> mkdir_succeeds e name \<and> dirs w' = dirs w
         \<or> build_steps w' = build_steps w @ [FaissAddWithIds d (length embs), Mkdir name, WriteIndex name]
             \<and> \<not> write_index_succeeds e name \<and> dirs w' = (dirs w)(name \<mapsto> empty_dir)
         \<or> build_steps w' = build_steps w
               @ [FaissAddWithIds d (length embs), Mkdir name, WriteIndex name, OpenMetadata name]
             \<and> (\<not> open_succeeds e name
                  \<and> dirs w' = (dirs w)(name \<mapsto>
                       \<lparr>index_faiss = Some \<lparr>dim = d, id_vectors = enumerate 0 embs\<rparr>,
                        metadata_file = None\<rparr>)
                \<or> open_succeeds e name
                  \<and> dirs w' = (dirs w)(name \<mapsto>
                       \<lparr>index_faiss = Some \<lparr>dim = d, id_vectors = enumerate 0 embs\<rparr>,
                        metadata_file = Some Incomplete\<rparr>))))"
proof (cases "\<exists>d. persist e (log_event (FaissAddWithIds d (length embs)) w) s
          \<lparr>dim = d, id_vectors = enumerate 0 embs\<rparr> (metadata_list docs) = Some (Inl err, w')")
  case True
  then obtain d where
    p: "persist e (log_event (FaissAddWithIds d (length embs)) w) s
          \<lparr>dim = d, id_vectors = enumerate 0 embs\<rparr> (metadata_list docs) = Some (Inl err, w')"
    by blast
  let ?w1 = "log_event (FaissAddWithIds d (length embs)) w"
  have b: "build_steps ?w1 = build_steps w @ [FaissAddWithIds d (length embs)]"
    by (simp add: build_steps_def log_event_def)
  have d: "dirs ?w1 = dirs w" by (simp add: log_event_def)
  from persist_stages [OF p] show ?thesis
    unfolding path_exists_log_event b d by auto
next
  case False
  with assms have "w' = w"
    by (auto simp: build_def Let_def split: if_splits sum.splits)
  then show ?thesis by simp
qed

text \<open>
  Claim C7, amended. Nothing is cleaned up after a failure, so what a failed run leaves
  depends on the step it reached. When it fails before the index is filled (collection,
  embedding, the two checks, the conversion) or when creating the directory fails, the
  store directories are as before. When writing the index file fails, the directory the
  run created under a name unused before remains and holds neither a complete index file
  nor a metadata file. When opening or dumping the metadata file fails, that directory
  remains and holds the index file but no completely written metadata file.
\<close>

theorem failed_run_persistence:
  assumes "run_pipeline e config w = Some (Inl err, w')"
  shows "build_steps w' = build_steps w \<and> dirs w' = dirs w
       \<or> (\<exists>d n name.
            build_steps w' = build_steps w @ [FaissAddWithIds d n, Mkdir name]
          \<and> \<not> mkdir_succeeds e name \<and> dirs w' = dirs w)
       \<or> (\<exists>d n name sd.
            build_steps w' = build_steps w @ [FaissAddWithIds d n, Mkdir name, WriteIndex name]
          \<and> \<not> write_index_succeeds e name
          \<and> \<not> path_exists w name \<and> dirs w' name = Some sd \<and> \<not> complete_store sd
          \<and> index_faiss sd = None \<and> metadata_file sd = None)
       \<or> (\<exists>d n name sd ix.
            build_steps w' = build_steps w
              @ [FaissAddWithIds d n, Mkdir name, WriteIndex name, OpenMetadata name]
          \<and> \<not> path_exists w name \<and> dirs w' name = Some sd \<and> \<not> complete_store sd
          \<and> index_faiss sd = Some ix
          \<and> (\<not> open_succeeds e name \<and> metadata_file sd = None
             \<or> open_succeeds e name \<and> metadata_file sd = Some Incomplete))"
proof -
  obtain r1 w1 where c: "collect_documents e config w = (r1, w1)"
    by (cases "collect_documents e config w")
  note f1 = collect_documents_frame [OF c]
  show ?thesis
  proof (cases r1)
    case (Inl e1)
    with assms c have "w' = w1" by (simp add: run_pipeline_def)
    with f1 show ?thesis by simp
  next
    case (Inr documents)
    obtain r2 w2 where
      m: "embed_documents e (embedding_config config) w1 (map doc_text documents) = (r2, w2)"
      by (cases "embed_documents e (embedding_config config) w1 (map doc_text documents)")
    note f2 = embed_documents_frame [OF m]
    have d2: "dirs w2 = dirs w" and s2: "build_steps w2 = build_steps w"
      and p2: "path_exists w2 = path_exists w"
      using f1 f2 by (auto simp: path_exists_def fun_eq_iff)
    show ?thesis
    proof (cases r2)
      case (Inl e2)
      with assms c \<open>r1 = Inr documents\<close> m have "w' = w2" by (simp add: run_pipeline_def)
      with d2 s2 show ?thesis by simp
    next
      case (Inr embeddings)
      with assms c \<open>r1 = Inr documents\<close> m
      have "build e w2 (vector_store_name config) documents embeddings = Some (Inl err, w')"
        by (simp add: run_pipeline_def)
      from build_stages [OF this] show ?thesis
        unfolding d2 s2 p2
        by (elim disjE exE conjE) (simp_all add: complete_store_def empty_dir_def)
    qed
  qed
qed

lemma partial_build_steps:
  "build_steps world_partial
     = [FaissAddWithIds 2 1, Mkdir ''store1'', WriteIndex ''store1'', OpenMetadata ''store1'']"
  "build_steps empty_world = []"
  by (simp_all add: build_steps_def world_partial_def empty_world_def)

text \<open>
  The amended claim C7 on the run whose metadata file cannot be opened: all four steps
  were attempted and the directory \<open>store1\<close> remains with the index file alone.
\<close>

theorem failed_run_persistence_witness:
  "run_pipeline env_open_fails example_config empty_world = Some (Inl OSError, world_partial)
   \<and> build_steps world_partial = build_steps empty_world
        @ [FaissAddWithIds 2 1, Mkdir ''store1'', WriteIndex ''store1'', OpenMetadata ''store1'']
   \<and> \<not> path_exists empty_world ''store1''
   \<and> \<not> open_succeeds env_open_fails ''store1''
   \<and> (\<exists>sd ix. dirs world_partial ''store1'' = Some sd \<and> \<not> complete_store sd
          \<and> index_faiss sd = Some ix \<and> metadata_file sd = None)"
proof -
  have o: "\<not> open_succeeds env_open_fails ''store1''" by (simp add: env_open_fails_def)
  from failed_run_persistence [OF failing_run] o
  have "build_steps world_partial = build_steps empty_world
        @ [FaissAddWithIds 2 1, Mkdir ''store1'', WriteIndex ''store1'', OpenMetadata ''store1'']
   \<and> \<not> path_exists empty_world ''store1''
   \<and> (\<exists>sd ix. dirs world_partial ''store1'' = Some sd \<and> \<not> complete_store sd
          \<and> index_faiss sd = Some ix \<and> metadata_file sd = None)"
    unfolding partial_build_steps by auto
  with o failing_run show ?thesis by blast
qed

section \<open>Empty collections: properties\<close>






end
